theory Spec2Isabelle
  imports Main "HOL-Library.Word"
begin

unbundle bit_operations_syntax

section \<open>Declarations taken from the headers\<close>

text \<open>
  The two source files include \<^verbatim>\<open>crud_file_io.h\<close> and \<^verbatim>\<open>crud_network.h\<close>, which are not
  among the sources. What the code uses from them is collected here: the integer types,
  the file table entry, the request codes and the macros. The numeric values of the
  macros are not fixed by anything in the sources, so every function below takes them
  as a parameter \<open>H\<close>.
\<close>

type_synonym byte = "8 word"
type_synonym CrudRequest = "64 word"
type_synonym CrudResponse = "64 word"
type_synonym CrudOID = "32 word"

text \<open>
  Modelled from the spec: \<^verbatim>\<open>CrudFileAllocationType\<close>, declared in the missing header
  \<^verbatim>\<open>crud_file_io.h\<close>. The fields and their widths are the ones the code uses
  (\<^verbatim>\<open>object_id\<close> and \<^verbatim>\<open>length\<close> are passed as \<^verbatim>\<open>uint32_t *\<close>, \<^verbatim>\<open>position\<close> is compared with
  \<^verbatim>\<open>length\<close>). The C fields \<^verbatim>\<open>length\<close> and \<^verbatim>\<open>open\<close> are called \<open>length_f\<close> and \<open>open_f\<close>.
  \<open>filename\<close> holds the characters of the C string in the array, without the
  terminating zero.
\<close>

record CrudFileAllocationType =
  filename :: string
  object_id :: CrudOID
  position :: "32 word"
  length_f :: "32 word"
  open_f :: "8 word"

datatype CRUD_REQUEST_TYPES =
  CRUD_INIT | CRUD_FORMAT | CRUD_CREATE | CRUD_READ | CRUD_UPDATE | CRUD_DELETE | CRUD_CLOSE

text \<open>
  Modelled from the spec: the macros and the enumeration values of the missing headers.
  \<open>req_code\<close> gives the number of each request code, \<open>sizeof_entry\<close> is
  \<^verbatim>\<open>sizeof(CrudFileAllocationType)\<close>, \<open>table_image\<close> and \<open>image_table\<close> are the byte image
  of the file table in memory and its inverse reading (both fixed by the layout of the
  struct), and \<open>malloc\<close> gives the bytes found in a freshly allocated block of the given
  size, which C leaves unspecified. The capacity \<^verbatim>\<open>CRUD_MAX_TOTAL_FILES\<close> is the length
  of the list that holds the table.
\<close>

record crud_hdr =
  req_code :: "CRUD_REQUEST_TYPES \<Rightarrow> 8 word"
  CRUD_NULL_FLAG :: "8 word"
  CRUD_PRIORITY_OBJECT :: "8 word"
  CRUD_NO_OBJECT :: CrudOID
  CRUD_MAX_OBJECT_SIZE :: "32 word"
  sizeof_entry :: nat
  table_image :: "CrudFileAllocationType list \<Rightarrow> byte list"
  image_table :: "byte list \<Rightarrow> CrudFileAllocationType list"
  malloc :: "nat \<Rightarrow> byte list"

section \<open>Wire codec (\<^verbatim>\<open>file_io.c\<close>)\<close>

text \<open>
  \<^verbatim>\<open>create_crud_request\<close> (its first parameter \<^verbatim>\<open>object_id\<close> is called \<open>oid\<close> here, the
  name being taken by the record field) widens each argument to 64 bits, shifts it to its place and
  combines the five values with bitwise or. Nothing is masked.
\<close>

definition create_crud_request ::
  "32 word \<Rightarrow> 8 word \<Rightarrow> 32 word \<Rightarrow> 8 word \<Rightarrow> 8 word \<Rightarrow> CrudRequest" where
  "create_crud_request oid req len flag rslt =
     push_bit 32 (ucast oid) OR push_bit 28 (ucast req) OR push_bit 4 (ucast len)
       OR push_bit 1 (ucast flag) OR ucast rslt"

text \<open>
  \<^verbatim>\<open>extract_crud_response\<close> isolates each field by a left shift followed by a right
  shift of the 64-bit word, and stores the result through a pointer of the field's
  type. The five out-parameters are returned as a tuple
  \<open>(object_id, request, length, flag, result)\<close>.
\<close>

definition extract_crud_response ::
  "CrudResponse \<Rightarrow> 32 word \<times> 8 word \<times> 32 word \<times> 8 word \<times> 8 word" where
  "extract_crud_response response =
     (ucast (drop_bit 32 response),
      ucast (drop_bit 60 (push_bit 32 response)),
      ucast (drop_bit 40 (push_bit 36 response)),
      ucast (drop_bit 61 (push_bit 60 response)),
      ucast (drop_bit 63 (push_bit 63 response)))"


section \<open>The virtual file layer (\<^verbatim>\<open>file_io.c\<close>)\<close>

subsection \<open>State and the call into the transport\<close>

text \<open>
  The globals of \<^verbatim>\<open>file_io.c\<close> are the flag \<^verbatim>\<open>INITIALIZED\<close> and the array
  \<^verbatim>\<open>crud_file_table\<close>. The state adds the other side of the connection, \<open>bus\<close>, and a
  record \<open>issued\<close> of the exchanges made so far; \<open>issued\<close> is not a variable of the
  program, it is kept so that theorems can speak of the requests that were sent. Each
  record holds the request code the caller used, the request word, the bytes of the
  buffer handed over, and the response word.
\<close>

record 'n driver =
  INITIALIZED :: "8 word"
  crud_file_table :: "CrudFileAllocationType list"
  bus :: 'n
  issued :: "(CRUD_REQUEST_TYPES \<times> CrudRequest \<times> byte list \<times> CrudResponse) list"

text \<open>
  To the file layer \<^verbatim>\<open>crud_client_operation(op, buf)\<close> is a call that takes a request
  word and a buffer, returns a response word and may have written to the buffer. The
  file layer is modelled over any such function \<open>x\<close>, acting on the state \<open>'n\<close> of the
  other side; a \<^verbatim>\<open>NULL\<close> buffer is passed as the empty list. The function of
  \<^verbatim>\<open>client.c\<close> itself is modelled in the section on the transport.
\<close>

type_synonym 'n exchange = "'n \<Rightarrow> CrudRequest \<Rightarrow> byte list \<Rightarrow> 'n \<times> CrudResponse \<times> byte list"

definition client_call ::
  "'n exchange \<Rightarrow> 'n driver \<Rightarrow> CRUD_REQUEST_TYPES \<Rightarrow> CrudRequest \<Rightarrow> byte list
     \<Rightarrow> 'n driver \<times> CrudResponse \<times> byte list" where
  "client_call x st tag request buf =
     (case x (bus st) request buf of
        (n', response, buf') \<Rightarrow>
          (st\<lparr>bus := n', issued := issued st @ [(tag, request, buf, response)]\<rparr>,
           response, buf'))"

subsection \<open>C library functions\<close>

text \<open>
  \<^verbatim>\<open>strcmp\<close> and \<^verbatim>\<open>strncmp\<close> on C strings given by their characters: the end of a list
  is the terminating zero. Only the sign of the result is kept. \<^verbatim>\<open>memcpy(dst + off, src,
  n)\<close> overwrites \<open>n\<close> bytes of \<open>dst\<close> from offset \<open>off\<close> on.
\<close>

fun strcmp :: "string \<Rightarrow> string \<Rightarrow> int" where
  "strcmp [] [] = 0"
| "strcmp [] (b # bs) = - 1"
| "strcmp (a # as) [] = 1"
| "strcmp (a # as) (b # bs) =
     (if a = b then strcmp as bs
      else if (of_char a :: nat) < of_char b then - 1 else 1)"

fun strncmp :: "string \<Rightarrow> string \<Rightarrow> nat \<Rightarrow> int" where
  "strncmp s t 0 = 0"
| "strncmp [] [] (Suc n) = 0"
| "strncmp [] (b # bs) (Suc n) = - 1"
| "strncmp (a # as) [] (Suc n) = 1"
| "strncmp (a # as) (b # bs) (Suc n) =
     (if a = b then strncmp as bs n
      else if (of_char a :: nat) < of_char b then - 1 else 1)"

definition strlen :: "string \<Rightarrow> nat" where
  "strlen s = length s"

definition memcpy :: "byte list \<Rightarrow> nat \<Rightarrow> byte list \<Rightarrow> nat \<Rightarrow> byte list" where
  "memcpy dst off src n = take off dst @ take n src @ drop (off + n) dst"

subsection \<open>Helpers shared by the operations\<close>

text \<open>
  \<open>set_entry\<close> writes one element of \<^verbatim>\<open>crud_file_table\<close>. \<open>extract_into_entry\<close> is the
  call \<^verbatim>\<open>extract_crud_response(response, &crud_file_table[fd].object_id, &req,
  &crud_file_table[fd].length, &flag, &result)\<close>: it stores the identifier and the
  length of the response in the entry, whatever the result bit says, and returns the
  result bit.
\<close>

definition set_entry :: "'n driver \<Rightarrow> nat \<Rightarrow> CrudFileAllocationType \<Rightarrow> 'n driver" where
  "set_entry st i e = st\<lparr>crud_file_table := (crud_file_table st)[i := e]\<rparr>"

definition extract_into_entry :: "'n driver \<Rightarrow> nat \<Rightarrow> CrudResponse \<Rightarrow> 'n driver \<times> 8 word" where
  "extract_into_entry st i response =
     (case extract_crud_response response of
        (oid, req, len, flag, result) \<Rightarrow>
          (set_entry st i ((crud_file_table st ! i)\<lparr>object_id := oid, length_f := len\<rparr>),
           result))"

text \<open>
  The block \<^verbatim>\<open>if( !INITIALIZED ) { ... }\<close> that opens \<^verbatim>\<open>crud_format\<close>, \<^verbatim>\<open>crud_mount\<close> and
  \<^verbatim>\<open>crud_open\<close>. The boolean is \<open>False\<close> when the block makes the function return \<open>-1\<close>.
\<close>

definition init_block :: "crud_hdr \<Rightarrow> 'n exchange \<Rightarrow> 'n driver \<Rightarrow> 'n driver \<times> bool" where
  "init_block H x st =
     (if INITIALIZED st = 0 then
        (case client_call x st CRUD_INIT
                (create_crud_request 0 (req_code H CRUD_INIT) 0 0 0) [] of
           (st1, response, buf') \<Rightarrow>
             (case extract_crud_response response of
                (oid, req, len, flag, result) \<Rightarrow>
                  if result \<noteq> 0 then (st1, False)
                  else (st1\<lparr>INITIALIZED := 1\<rparr>, True)))
      else (st, True))"

subsection \<open>\<^verbatim>\<open>crud_format\<close>, \<^verbatim>\<open>crud_mount\<close>, \<^verbatim>\<open>crud_unmount\<close>\<close>

definition empty_entry :: "crud_hdr \<Rightarrow> CrudFileAllocationType" where
  "empty_entry H =
     \<lparr>filename = [], object_id = CRUD_NO_OBJECT H, position = 0, length_f = 0, open_f = 0\<rparr>"

definition crud_format :: "crud_hdr \<Rightarrow> 'n exchange \<Rightarrow> 'n driver \<Rightarrow> 'n driver \<times> 16 word" where
  "crud_format H x st =
     (let prioritySize = sizeof_entry H * length (crud_file_table st) in
      case init_block H x st of
        (st1, ok) \<Rightarrow>
          if \<not> ok then (st1, - 1)
          else
            (case client_call x st1 CRUD_FORMAT
                    (create_crud_request 0 (req_code H CRUD_FORMAT) 0 (CRUD_NULL_FLAG H) 0) [] of
               (st2, response, buf') \<Rightarrow>
                 (case extract_crud_response response of
                    (oid, req, len, flag, result) \<Rightarrow>
                      if result \<noteq> 0 then (st2, - 1)
                      else
                        (let st3 = st2\<lparr>crud_file_table :=
                                     map (\<lambda>e. empty_entry H) (crud_file_table st2)\<rparr>;
                             buf = take prioritySize (table_image H (crud_file_table st3))
                         in case client_call x st3 CRUD_CREATE
                                   (create_crud_request 0 (req_code H CRUD_CREATE)
                                      (of_nat prioritySize) (CRUD_PRIORITY_OBJECT H) 0) buf of
                              (st4, response, buf') \<Rightarrow>
                                (case extract_crud_response response of
                                   (oid, req, len, flag, result) \<Rightarrow>
                                     if result \<noteq> 0 then (st4, - 1) else (st4, 0))))))"

definition crud_mount :: "crud_hdr \<Rightarrow> 'n exchange \<Rightarrow> 'n driver \<Rightarrow> 'n driver \<times> 16 word" where
  "crud_mount H x st =
     (let tableSize = sizeof_entry H * length (crud_file_table st);
          buf = malloc H tableSize in
      case init_block H x st of
        (st1, ok) \<Rightarrow>
          if \<not> ok then (st1, - 1)
          else
            (case client_call x st1 CRUD_READ
                    (create_crud_request 0 (req_code H CRUD_READ) (of_nat tableSize)
                       (CRUD_PRIORITY_OBJECT H) 0) buf of
               (st2, response, buf') \<Rightarrow>
                 (case extract_crud_response response of
                    (oid, req, len, flag, result) \<Rightarrow>
                      if result \<noteq> 0 then (st2, - 1)
                      else (st2\<lparr>crud_file_table := image_table H (take tableSize buf')\<rparr>, 0))))"

definition crud_unmount :: "crud_hdr \<Rightarrow> 'n exchange \<Rightarrow> 'n driver \<Rightarrow> 'n driver \<times> 16 word" where
  "crud_unmount H x st =
     (let tableSize = sizeof_entry H * length (crud_file_table st);
          buf = take tableSize (table_image H (crud_file_table st)) in
      case client_call x st CRUD_UPDATE
             (create_crud_request 0 (req_code H CRUD_UPDATE) (of_nat tableSize)
                (CRUD_PRIORITY_OBJECT H) 0) buf of
        (st1, response, buf') \<Rightarrow>
          (case extract_crud_response response of
             (oid, req, len, flag, result) \<Rightarrow>
               if result \<noteq> 0 then (st1, - 1)
               else
                 (case client_call x st1 CRUD_CLOSE
                         (create_crud_request 0 (req_code H CRUD_CLOSE) 0 0 0) [] of
                    (st2, response, buf'') \<Rightarrow>
                      (case extract_crud_response response of
                         (oid, req, len, flag, result) \<Rightarrow>
                           if result \<noteq> 0 then (st2, - 1) else (st2, 0)))))"

subsection \<open>\<^verbatim>\<open>crud_open\<close> and \<^verbatim>\<open>crud_close\<close>\<close>

text \<open>
  The first loop of \<^verbatim>\<open>crud_open\<close> visits every entry and does not stop at a match: the
  pair \<^verbatim>\<open>fileExists\<close>, \<^verbatim>\<open>existingFd\<close> is the option \<open>found\<close>, overwritten at every entry
  whose name is not empty and for which \<^verbatim>\<open>strncmp(filename, path, strlen(path))\<close> is 0.
  The second loop returns at the first entry that is not open and has an empty name.
\<close>

fun find_existing ::
  "CrudFileAllocationType list \<Rightarrow> string \<Rightarrow> nat \<Rightarrow> nat option \<Rightarrow> nat option" where
  "find_existing [] path i found = found"
| "find_existing (e # es) path i found =
     find_existing es path (Suc i)
       (if strcmp (filename e) [] \<noteq> 0 then
          (if strncmp (filename e) path (strlen path) = 0 then Some i else found)
        else found)"

fun find_unopen :: "CrudFileAllocationType list \<Rightarrow> nat \<Rightarrow> nat option" where
  "find_unopen [] i = None"
| "find_unopen (e # es) i =
     (if open_f e = 0 \<and> strcmp (filename e) [] = 0 then Some i
      else find_unopen es (Suc i))"

definition crud_open :: "crud_hdr \<Rightarrow> 'n exchange \<Rightarrow> 'n driver \<Rightarrow> string \<Rightarrow> 'n driver \<times> 16 word" where
  "crud_open H x st path =
     (case init_block H x st of
        (st1, ok) \<Rightarrow>
          if \<not> ok then (st1, - 1)
          else
            (case find_existing (crud_file_table st1) path 0 None of
               Some existingFd \<Rightarrow>
                 (set_entry st1 existingFd
                    ((crud_file_table st1 ! existingFd)\<lparr>open_f := 1, position := 0\<rparr>),
                  of_nat existingFd)
             | None \<Rightarrow>
                 (case find_unopen (crud_file_table st1) 0 of
                    Some i \<Rightarrow>
                      (set_entry st1 i
                         ((crud_file_table st1 ! i)
                            \<lparr>open_f := 1, filename := path, object_id := CRUD_NO_OBJECT H,
                             length_f := 0, position := 0\<rparr>),
                       of_nat i)
                  | None \<Rightarrow> (st1, - 1))))"

definition crud_close :: "'n driver \<Rightarrow> 16 word \<Rightarrow> 'n driver \<times> 16 word" where
  "crud_close st fd =
     (let i = nat (sint fd) in
      if sint fd < 0 \<or> sint fd > int (length (crud_file_table st)) - 1 then (st, - 1)
      else if open_f (crud_file_table st ! i) = 0 then (st, - 1)
      else (set_entry st i ((crud_file_table st ! i)\<lparr>open_f := 0\<rparr>), 0))"

subsection \<open>\<^verbatim>\<open>crud_seek\<close>\<close>

text \<open>
  \<^verbatim>\<open>loc\<close> is a \<^verbatim>\<open>uint32_t\<close>, so the test \<^verbatim>\<open>loc < 0\<close> of the source is never true.
\<close>

definition crud_seek :: "'n driver \<Rightarrow> 16 word \<Rightarrow> 32 word \<Rightarrow> 'n driver \<times> 32 word" where
  "crud_seek st fd loc =
     (let i = nat (sint fd) in
      if sint fd < 0 \<or> sint fd > int (length (crud_file_table st)) - 1 then (st, - 1)
      else if open_f (crud_file_table st ! i) = 0 then (st, - 1)
      else if loc > length_f (crud_file_table st ! i) then (st, - 1)
      else (set_entry st i ((crud_file_table st ! i)\<lparr>position := loc\<rparr>), 0))"

subsection \<open>\<^verbatim>\<open>crud_read\<close>\<close>

text \<open>
  The copying loop of \<^verbatim>\<open>crud_read\<close>. \<open>pos\<close> is \<^verbatim>\<open>crud_file_table[fd].position\<close>, \<open>len\<close> the
  entry's length, \<open>i\<close> the loop counter (\<^verbatim>\<open>bytesRead\<close> is always equal to it), and \<open>out\<close>
  the part \<^verbatim>\<open>tempBuf2[0 .. i)\<close> written so far. \<^verbatim>\<open>i < count\<close> compares two \<^verbatim>\<open>int32_t\<close>,
  \<^verbatim>\<open>position < length\<close> two \<^verbatim>\<open>uint32_t\<close>.
\<close>

lemma unat_succ_less:
  assumes "(pos :: 32 word) < len"
  shows "unat (pos + 1) = Suc (unat pos)"
proof -
  have "unat pos < unat len" using assms by (simp add: word_less_nat_alt)
  moreover have "unat len < 2 ^ 32" using unsigned_less [of len] by simp
  ultimately have "unat pos + 1 < 2 ^ 32" by simp
  then show ?thesis by (simp add: unat_word_ariths)
qed

function read_loop ::
  "byte list \<Rightarrow> 32 word \<Rightarrow> 32 word \<Rightarrow> 32 word \<Rightarrow> 32 word \<Rightarrow> byte list
     \<Rightarrow> 32 word \<times> 32 word \<times> byte list" where
  "read_loop tempBuf len pos i count out =
     (if pos < len \<and> sint i < sint count
      then read_loop tempBuf len (pos + 1) (i + 1) count (out @ [tempBuf ! unat pos])
      else (pos, i, out))"
  by pat_completeness auto
termination
  by (relation "measure (\<lambda>(tempBuf, len, pos, i, count, out). unat len - unat pos)")
    (auto simp add: unat_succ_less word_less_nat_alt)

declare read_loop.simps [simp del]

text \<open>
  \<open>buf\<close> is \<open>None\<close> for a \<^verbatim>\<open>NULL\<close> pointer and otherwise the bytes of the caller's buffer.
  The result is the state, the value returned and the caller's buffer afterwards.
\<close>

definition crud_read ::
  "crud_hdr \<Rightarrow> 'n exchange \<Rightarrow> 'n driver \<Rightarrow> 16 word \<Rightarrow> byte list option \<Rightarrow> 32 word
     \<Rightarrow> 'n driver \<times> 32 word \<times> byte list option" where
  "crud_read H x st fd buf count =
     (let i = nat (sint fd) in
      if sint fd < 0 \<or> sint fd > int (length (crud_file_table st)) - 1 then (st, - 1, buf)
      else if open_f (crud_file_table st ! i) = 0 then (st, - 1, buf)
      else
        (case buf of
           None \<Rightarrow> (st, - 1, buf)
         | Some b \<Rightarrow>
             if length_f (crud_file_table st ! i) = 0 then (st, 0, buf)
             else if sint count < 1 then (st, 0, buf)
             else
               (case client_call x st CRUD_READ
                       (create_crud_request (object_id (crud_file_table st ! i))
                          (req_code H CRUD_READ) (CRUD_MAX_OBJECT_SIZE H) 0 0)
                       (malloc H (unat (CRUD_MAX_OBJECT_SIZE H))) of
                  (st1, response, tempBuf) \<Rightarrow>
                    (case extract_into_entry st1 i response of
                       (st2, result) \<Rightarrow>
                         if result \<noteq> 0 then (st2, - 1, buf)
                         else
                           (case read_loop tempBuf (length_f (crud_file_table st2 ! i))
                                   (position (crud_file_table st2 ! i)) 0 count [] of
                              (pos, bytesRead, tempBuf2) \<Rightarrow>
                                (set_entry st2 i ((crud_file_table st2 ! i)\<lparr>position := pos\<rparr>),
                                 bytesRead,
                                 Some (memcpy b 0 tempBuf2 (unat bytesRead))))))))"

subsection \<open>\<^verbatim>\<open>crud_write\<close>\<close>

text \<open>
  \<^verbatim>\<open>count\<close> is an \<^verbatim>\<open>int32_t\<close>; \<^verbatim>\<open>count + position\<close> is computed in 32 bits without sign.
  \<^verbatim>\<open>malloc\<close> is taken to succeed. The three branches of the source (\<^verbatim>\<open>CASE 0\<close>: no object
  yet, \<^verbatim>\<open>CASE 1\<close>: the write fits, \<^verbatim>\<open>CASE 2\<close>: the file grows) are \<open>write_case0\<close>,
  \<open>write_case1\<close> and \<open>write_case2\<close>; \<open>b\<close> holds the bytes of the caller's buffer, of which
  the first \<open>count\<close> are used.
\<close>

definition write_case0 ::
  "crud_hdr \<Rightarrow> 'n exchange \<Rightarrow> 'n driver \<Rightarrow> nat \<Rightarrow> byte list \<Rightarrow> 32 word \<Rightarrow> 'n driver \<times> 32 word" where
  "write_case0 H x st i b count =
     (let tempBuf = take (unat count) b in
      case client_call x st CRUD_CREATE
             (create_crud_request 0 (req_code H CRUD_CREATE) count 0 0) tempBuf of
        (st1, response, buf') \<Rightarrow>
          (case extract_into_entry st1 i response of
             (st2, result) \<Rightarrow>
               if result \<noteq> 0 then (st2, - 1)
               else (set_entry st2 i ((crud_file_table st2 ! i)\<lparr>position := count\<rparr>), count)))"

definition write_case1 ::
  "crud_hdr \<Rightarrow> 'n exchange \<Rightarrow> 'n driver \<Rightarrow> nat \<Rightarrow> byte list \<Rightarrow> 32 word \<Rightarrow> 'n driver \<times> 32 word" where
  "write_case1 H x st i b count =
     (case client_call x st CRUD_READ
             (create_crud_request (object_id (crud_file_table st ! i))
                (req_code H CRUD_READ) (CRUD_MAX_OBJECT_SIZE H) 0 0)
             (malloc H (unat (CRUD_MAX_OBJECT_SIZE H))) of
        (st1, response, tempBuf2) \<Rightarrow>
          (case extract_into_entry st1 i response of
             (st2, result) \<Rightarrow>
               if result \<noteq> 0 then (st2, - 1)
               else
                 (case client_call x st2 CRUD_UPDATE
                         (create_crud_request (object_id (crud_file_table st2 ! i))
                            (req_code H CRUD_UPDATE) (length_f (crud_file_table st2 ! i)) 0 0)
                         (memcpy tempBuf2 (unat (position (crud_file_table st2 ! i)))
                            b (unat count)) of
                    (st3, response, buf') \<Rightarrow>
                      (case extract_into_entry st3 i response of
                         (st4, result) \<Rightarrow>
                           if result \<noteq> 0 then (st4, - 1)
                           else
                             (set_entry st4 i
                                ((crud_file_table st4 ! i)
                                   \<lparr>position := position (crud_file_table st4 ! i) + count\<rparr>),
                              count)))))"

definition write_case2 ::
  "crud_hdr \<Rightarrow> 'n exchange \<Rightarrow> 'n driver \<Rightarrow> nat \<Rightarrow> byte list \<Rightarrow> 32 word \<Rightarrow> 'n driver \<times> 32 word" where
  "write_case2 H x st i b count =
     (let newLength = count + position (crud_file_table st ! i) in
      case client_call x st CRUD_READ
             (create_crud_request (object_id (crud_file_table st ! i))
                (req_code H CRUD_READ) newLength 0 0)
             (malloc H (unat newLength)) of
        (st1, response, tempBuf2) \<Rightarrow>
          (case extract_into_entry st1 i response of
             (st2, result) \<Rightarrow>
               if result \<noteq> 0 then (st2, - 1)
               else
                 (case client_call x st2 CRUD_DELETE
                         (create_crud_request (object_id (crud_file_table st2 ! i))
                            (req_code H CRUD_DELETE) 0 0 0) [] of
                    (st3, response, buf') \<Rightarrow>
                      (case extract_into_entry st3 i response of
                         (st4, result) \<Rightarrow>
                           if result \<noteq> 0 then (st4, - 1)
                           else
                             (case client_call x st4 CRUD_CREATE
                                     (create_crud_request 0 (req_code H CRUD_CREATE)
                                        newLength 0 0)
                                     (memcpy tempBuf2
                                        (unat (position (crud_file_table st2 ! i)))
                                        b (unat count)) of
                                (st5, response, buf'') \<Rightarrow>
                                  (case extract_into_entry st5 i response of
                                     (st6, result) \<Rightarrow>
                                       if result \<noteq> 0 then (st6, - 1)
                                       else
                                         (set_entry st6 i
                                            ((crud_file_table st6 ! i)
                                               \<lparr>position :=
                                                  position (crud_file_table st6 ! i) + count\<rparr>),
                                          count)))))))"

definition crud_write ::
  "crud_hdr \<Rightarrow> 'n exchange \<Rightarrow> 'n driver \<Rightarrow> 16 word \<Rightarrow> byte list option \<Rightarrow> 32 word
     \<Rightarrow> 'n driver \<times> 32 word" where
  "crud_write H x st fd buf count =
     (let i = nat (sint fd) in
      if sint fd < 0 \<or> sint fd > int (length (crud_file_table st)) - 1 then (st, - 1)
      else if open_f (crud_file_table st ! i) = 0 then (st, - 1)
      else
        (case buf of
           None \<Rightarrow> (st, - 1)
         | Some b \<Rightarrow>
             if sint count < 1 then (st, 0)
             else if object_id (crud_file_table st ! i) = CRUD_NO_OBJECT H
               then write_case0 H x st i b count
             else if length_f (crud_file_table st ! i)
                       \<ge> count + position (crud_file_table st ! i)
               then write_case1 H x st i b count
             else write_case2 H x st i b count))"

section \<open>Predicates used in the statements\<close>

text \<open>
  A handle is refused by \<^verbatim>\<open>crud_close\<close>, \<^verbatim>\<open>crud_seek\<close>, \<^verbatim>\<open>crud_read\<close> and \<^verbatim>\<open>crud_write\<close>
  when it is out of range or its entry is not open.
\<close>

definition bad_handle :: "'n driver \<Rightarrow> 16 word \<Rightarrow> bool" where
  "bad_handle st fd \<longleftrightarrow>
     sint fd < 0 \<or> sint fd > int (length (crud_file_table st)) - 1
       \<or> open_f (crud_file_table st ! nat (sint fd)) = 0"


text \<open>
  At process start \<^verbatim>\<open>INITIALIZED\<close> is 0 and the table, a static array, is zeroed: it has
  at least one entry and every entry is closed and unnamed. \<open>startup_inv\<close> says that
  the table is still in that condition for as long as \<^verbatim>\<open>INITIALIZED\<close> is 0. Every
  operation keeps it (\<open>startup_inv_step\<close> below), so it holds in every state the program
  reaches.
\<close>

definition startup_inv :: "'n driver \<Rightarrow> bool" where
  "startup_inv st \<longleftrightarrow>
     (INITIALIZED st = 0 \<longrightarrow>
        crud_file_table st \<noteq> []
          \<and> (\<forall>e \<in> set (crud_file_table st). open_f e = 0 \<and> filename e = []))"

text \<open>
  The calls of the interface as values, and the function that runs one call or a list
  of calls. The value returned is read as an integer: signed for the \<^verbatim>\<open>int16_t\<close> and
  \<^verbatim>\<open>int32_t\<close> results, unsigned for the \<^verbatim>\<open>uint16_t\<close> results of \<^verbatim>\<open>crud_format\<close>,
  \<^verbatim>\<open>crud_mount\<close> and \<^verbatim>\<open>crud_unmount\<close>.
\<close>

datatype crud_op =
  Format | Mount | Unmount | Open string | Close "16 word" | Seek "16 word" "32 word"
  | Read "16 word" "byte list option" "32 word" | Write "16 word" "byte list option" "32 word"

fun crud_step :: "crud_hdr \<Rightarrow> 'n exchange \<Rightarrow> 'n driver \<Rightarrow> crud_op \<Rightarrow> 'n driver \<times> int" where
  "crud_step H x st Format = (case crud_format H x st of (st', r) \<Rightarrow> (st', uint r))"
| "crud_step H x st Mount = (case crud_mount H x st of (st', r) \<Rightarrow> (st', uint r))"
| "crud_step H x st Unmount = (case crud_unmount H x st of (st', r) \<Rightarrow> (st', uint r))"
| "crud_step H x st (Open path) = (case crud_open H x st path of (st', r) \<Rightarrow> (st', sint r))"
| "crud_step H x st (Close fd) = (case crud_close st fd of (st', r) \<Rightarrow> (st', sint r))"
| "crud_step H x st (Seek fd loc) = (case crud_seek st fd loc of (st', r) \<Rightarrow> (st', sint r))"
| "crud_step H x st (Read fd buf count) =
     (case crud_read H x st fd buf count of (st', r, buf') \<Rightarrow> (st', sint r))"
| "crud_step H x st (Write fd buf count) =
     (case crud_write H x st fd buf count of (st', r) \<Rightarrow> (st', sint r))"

fun crud_run :: "crud_hdr \<Rightarrow> 'n exchange \<Rightarrow> 'n driver \<Rightarrow> crud_op list \<Rightarrow> 'n driver" where
  "crud_run H x st [] = st"
| "crud_run H x st (c # cs) = crud_run H x (fst (crud_step H x st c)) cs"

section \<open>Concrete instances for evaluation\<close>

text \<open>
  An instance of the header's declarations, used where a function is evaluated on a
  concrete input: the request codes are numbered from 0 in the order of the
  enumeration, a fresh block holds zeros, and the table image is left empty.
\<close>

definition hdr0 :: crud_hdr where
  "hdr0 =
     \<lparr>req_code = (\<lambda>r. case r of CRUD_INIT \<Rightarrow> 0 | CRUD_FORMAT \<Rightarrow> 1 | CRUD_CREATE \<Rightarrow> 2
                     | CRUD_READ \<Rightarrow> 3 | CRUD_UPDATE \<Rightarrow> 4 | CRUD_DELETE \<Rightarrow> 5 | CRUD_CLOSE \<Rightarrow> 6),
      CRUD_NULL_FLAG = 0, CRUD_PRIORITY_OBJECT = 1, CRUD_NO_OBJECT = 0,
      CRUD_MAX_OBJECT_SIZE = 16, sizeof_entry = 4,
      table_image = (\<lambda>t. []), image_table = (\<lambda>b. []),
      malloc = (\<lambda>n. replicate n 0)\<rparr>"

text \<open>
  An other side that answers from a script: each exchange takes the next pair of a
  response word and the bytes it delivers into the buffer. When the script is used up
  the exchange returns the all-ones word, which is what \<^verbatim>\<open>crud_client_operation\<close>
  returns (\<^verbatim>\<open>-1\<close>) when the transport fails.
\<close>

definition scripted :: "(CrudResponse \<times> byte list) list exchange" where
  "scripted rs request buf =
     (case rs of
        [] \<Rightarrow> ([], - 1, buf)
      | (response, payload) # rest \<Rightarrow> (rest, response, memcpy buf 0 payload (length payload)))"

definition table0 :: "nat \<Rightarrow> CrudFileAllocationType list" where
  "table0 n = replicate n (empty_entry hdr0)"

definition driver0 ::
  "8 word \<Rightarrow> CrudFileAllocationType list \<Rightarrow> (CrudResponse \<times> byte list) list
     \<Rightarrow> (CrudResponse \<times> byte list) list driver" where
  "driver0 ini tbl rs = \<lparr>INITIALIZED = ini, crud_file_table = tbl, bus = rs, issued = []\<rparr>"

text \<open>An open file of five bytes with the cursor at 3, and a store that answers one READ.\<close>

definition st_read0 :: "(CrudResponse \<times> byte list) list driver" where
  "st_read0 =
     driver0 1
       [\<lparr>filename = ''f'', object_id = 7, position = 3, length_f = 5, open_f = 1\<rparr>]
       [(create_crud_request 7 3 5 0 0, [10, 11, 12, 13, 14])]"

text \<open>
  The exchanges of a record that were made for an INIT request, and their outcomes in
  order: \<open>True\<close> for a response whose result bit is 0.
\<close>

definition init_exchanges ::
  "(CRUD_REQUEST_TYPES \<times> CrudRequest \<times> byte list \<times> CrudResponse) list
     \<Rightarrow> (CRUD_REQUEST_TYPES \<times> CrudRequest \<times> byte list \<times> CrudResponse) list" where
  "init_exchanges log = filter (\<lambda>(tag, request, buf, response). tag = CRUD_INIT) log"

definition init_outcomes ::
  "(CRUD_REQUEST_TYPES \<times> CrudRequest \<times> byte list \<times> CrudResponse) list \<Rightarrow> bool list" where
  "init_outcomes log =
     map (\<lambda>(tag, request, buf, response).
            snd (snd (snd (snd (extract_crud_response response)))) = 0)
       (init_exchanges log)"

text \<open>
  What the argument about INIT looks at in a state: the flag and the outcomes of the
  INIT exchanges so far. \<open>init_once\<close> holds when every INIT exchange but the last
  failed and the last one succeeded exactly when the flag is set.
\<close>

definition init_view :: "'n driver \<Rightarrow> 8 word \<times> bool list" where
  "init_view st = (INITIALIZED st, init_outcomes (issued st))"

definition init_once :: "8 word \<times> bool list \<Rightarrow> bool" where
  "init_once v \<longleftrightarrow>
     (\<exists>k. snd v = replicate k False @ (if fst v = 0 then [] else [True]))"

section \<open>The transport (\<^verbatim>\<open>client.c\<close>)\<close>

subsection \<open>The socket\<close>

text \<open>
  The globals of \<^verbatim>\<open>client.c\<close> that matter are the flag \<^verbatim>\<open>CONNECTED\<close> and the socket. The
  operating system is part of the state as a script of what its calls will return:
  \<open>inet_aton_ret\<close>, \<open>socket_ret\<close> and \<open>connect_ret\<close> are the values returned by
  \<^verbatim>\<open>inet_aton\<close>, \<^verbatim>\<open>socket\<close> and \<^verbatim>\<open>connect\<close>; \<open>write_rets\<close> lists what the successive calls of
  \<^verbatim>\<open>write\<close> return (a negative number for an error, otherwise the number of bytes the
  socket accepts, which is never more than the number asked for); \<open>arrivals\<close> lists
  what arrives on the socket, \<open>None\<close> for a read error and \<open>Some bs\<close> for a run of bytes
  (\<open>Some []\<close> is the end of the stream). \<open>sent\<close> collects the bytes accepted by \<^verbatim>\<open>write\<close>.
  A call for which the script has no entry never returns: its result is \<open>None\<close>.
\<close>

record socket_env =
  CONNECTED :: "8 word"
  inet_aton_ret :: int
  socket_ret :: int
  connect_ret :: int
  write_rets :: "int list"
  arrivals :: "byte list option list"
  sent :: "byte list"

definition sock_write :: "socket_env \<Rightarrow> byte list \<Rightarrow> nat \<Rightarrow> (socket_env \<times> int) option" where
  "sock_write w data n =
     (case write_rets w of
        [] \<Rightarrow> None
      | r # rs \<Rightarrow>
          if r < 0 then Some (w\<lparr>write_rets := rs\<rparr>, - 1)
          else Some (w\<lparr>write_rets := rs, sent := sent w @ take (min (nat r) n) data\<rparr>,
                     int (min (nat r) n)))"

definition sock_read :: "socket_env \<Rightarrow> nat \<Rightarrow> (socket_env \<times> int \<times> byte list) option" where
  "sock_read w n =
     (case arrivals w of
        [] \<Rightarrow> None
      | None # rest \<Rightarrow> Some (w\<lparr>arrivals := rest\<rparr>, - 1, [])
      | Some bs # rest \<Rightarrow>
          if length bs \<le> n then Some (w\<lparr>arrivals := rest\<rparr>, int (length bs), bs)
          else Some (w\<lparr>arrivals := Some (drop n bs) # rest\<rparr>, int n, take n bs))"

text \<open>
  Modelled from the spec: \<^verbatim>\<open>htonll64\<close> and \<^verbatim>\<open>ntohll64\<close> belong to a utility library that
  is not among the sources. The spec says that the word travels in big-endian byte
  order: \<open>be_bytes\<close> gives the eight bytes that \<^verbatim>\<open>write\<close> sees after \<^verbatim>\<open>htonll64\<close>, and
  \<open>be_word\<close> is the value of \<^verbatim>\<open>ntohll64\<close> on the eight bytes that \<^verbatim>\<open>read\<close> stored.
\<close>

definition be_bytes :: "64 word \<Rightarrow> byte list" where
  "be_bytes v = map (\<lambda>i. ucast (drop_bit (8 * (7 - i)) v)) [0..<8]"

definition be_word :: "byte list \<Rightarrow> 64 word" where
  "be_word bs = foldl (\<lambda>acc b. push_bit 8 acc OR ucast b) 0 bs"

subsection \<open>The payload loops\<close>

text \<open>
  \<^verbatim>\<open>while( bytesWritten != length ) bytesWritten = bytesWritten + write(socket_fd,
  &tempBuf[bytesWritten], length-bytesWritten);\<close> The counter is an \<^verbatim>\<open>int\<close> compared
  with a \<^verbatim>\<open>uint32_t\<close>, so both are 32-bit words here, and the value returned by
  \<^verbatim>\<open>write\<close> is added without being tested: a failed \<^verbatim>\<open>write\<close> takes the counter one
  step back. When the counter is still inside the block the loop goes on from there.
  When it was 0 it becomes \<open>-1\<close>, which as an unsigned number is above \<open>length\<close>, and the
  next round forms the address \<^verbatim>\<open>&tempBuf[-1]\<close> outside the block that \<^verbatim>\<open>malloc\<close>
  returned. C leaves that undefined; the model stops there with the fault
  \<open>Out_of_block\<close>.
\<close>

datatype fault = Out_of_block

function send_loop ::
  "socket_env \<Rightarrow> byte list \<Rightarrow> 32 word \<Rightarrow> 32 word \<Rightarrow> (fault + socket_env) option" where
  "send_loop w tempBuf len bytesWritten =
     (if bytesWritten \<noteq> len then
        (if len < bytesWritten then Some (Inl Out_of_block)
         else
           (case sock_write w (drop (unat bytesWritten) tempBuf) (unat (len - bytesWritten)) of
              None \<Rightarrow> None
            | Some (w', r) \<Rightarrow> send_loop w' tempBuf len (bytesWritten + of_int r)))
      else Some (Inr w))"
  by pat_completeness auto
termination
  by (relation "measure (\<lambda>(w, tempBuf, len, bytesWritten). length (write_rets w))")
    (auto simp add: sock_write_def split: list.splits if_splits)

declare send_loop.simps [simp del]

text \<open>
  \<^verbatim>\<open>while( bytesRead != length ) bytesRead = bytesRead + read(socket_fd,
  &tempBuf[bytesRead], length-bytesRead);\<close> The bytes read are stored in \<open>tempBuf\<close> from
  offset \<open>bytesRead\<close> on. As in the loop above, a failed \<^verbatim>\<open>read\<close> takes the counter one
  step back, and from 0 to \<open>-1\<close>: the next round would have \<^verbatim>\<open>read\<close> store bytes before
  the block, which is the fault \<open>Out_of_block\<close>.
\<close>

function recv_loop ::
  "socket_env \<Rightarrow> byte list \<Rightarrow> 32 word \<Rightarrow> 32 word
     \<Rightarrow> (fault + socket_env \<times> byte list) option" where
  "recv_loop w tempBuf len bytesRead =
     (if bytesRead \<noteq> len then
        (if len < bytesRead then Some (Inl Out_of_block)
         else
           (case sock_read w (unat (len - bytesRead)) of
              None \<Rightarrow> None
            | Some (w', r, bs) \<Rightarrow>
                recv_loop w' (memcpy tempBuf (unat bytesRead) bs (length bs)) len
                  (bytesRead + of_int r)))
      else Some (Inr (w, tempBuf)))"
  by pat_completeness auto
termination
proof (relation "measure (\<lambda>(w, tempBuf, len, bytesRead).
         size_list (\<lambda>a. case a of None \<Rightarrow> 0 | Some bs \<Rightarrow> length bs) (arrivals w))")
  show "wf (measure (\<lambda>(w, tempBuf, len, bytesRead).
         size_list (\<lambda>a. case a of None \<Rightarrow> 0 | Some bs \<Rightarrow> length bs) (arrivals w)))"
    by simp
next
  fix w :: socket_env and tempBuf :: "byte list" and len bytesRead :: "32 word"
    and x2 :: "socket_env \<times> int \<times> byte list" and w' :: socket_env
    and y :: "int \<times> byte list" and r :: int and bs :: "byte list"
  assume ne: "bytesRead \<noteq> len" and inside: "\<not> len < bytesRead"
    and rd: "sock_read w (unat (len - bytesRead)) = Some x2"
    and x2: "(w', y) = x2" and y: "(r, bs) = y"
  from ne have "0 < unat (len - bytesRead)" by (simp add: unat_gt_0)
  with rd x2 [symmetric]
  have "size_list (\<lambda>a. case a of None \<Rightarrow> 0 | Some bs \<Rightarrow> length bs) (arrivals w')
          < size_list (\<lambda>a. case a of None \<Rightarrow> 0 | Some bs \<Rightarrow> length bs) (arrivals w)"
    by (auto simp add: sock_read_def split: list.splits option.splits if_splits)
  then show "((w', memcpy tempBuf (unat bytesRead) bs (length bs), len, bytesRead + of_int r),
              (w, tempBuf, len, bytesRead))
       \<in> measure (\<lambda>(w, tempBuf, len, bytesRead).
            size_list (\<lambda>a. case a of None \<Rightarrow> 0 | Some bs \<Rightarrow> length bs) (arrivals w))"
    by simp
qed

declare recv_loop.simps [simp del]

subsection \<open>\<^verbatim>\<open>crud_client_operation\<close>\<close>

text \<open>
  The function in three parts, in the order of the source: the connection block, the
  sending of the request word and of the payload, and the receiving of the response
  word and of the payload. The connection block and the sending either make the
  function return (\<open>Inl\<close> with the socket; the value returned is \<open>-1\<close>) or go on (\<open>Inr\<close>).
  A fault of a payload loop is the result of the part and of the whole function
  (the outer \<open>Inl\<close>). The result \<open>None\<close> stands for a call that never returns.
\<close>

definition connect_block :: "socket_env \<Rightarrow> socket_env + socket_env" where
  "connect_block w =
     (if CONNECTED w = 0 then
        (if inet_aton_ret w = 0 then Inl w
         else if socket_ret w = - 1 then Inl w
         else if connect_ret w = - 1 then Inl w
         else Inr (w\<lparr>CONNECTED := 1\<rparr>))
      else Inr w)"

definition send_request ::
  "crud_hdr \<Rightarrow> socket_env \<Rightarrow> CrudRequest \<Rightarrow> byte list
     \<Rightarrow> (fault + socket_env + socket_env) option" where
  "send_request H w op buf =
     (let request = (ucast (drop_bit 60 (push_bit 32 op)) :: 8 word);
          len = (ucast (drop_bit 40 (push_bit 36 op)) :: 32 word)
      in case sock_write w (be_bytes op) 8 of
           None \<Rightarrow> None
         | Some (w1, r) \<Rightarrow>
             if r \<noteq> 8 then Some (Inr (Inl w1))
             else if request = req_code H CRUD_CREATE \<or> request = req_code H CRUD_UPDATE then
               (case send_loop w1 (take (unat len) buf) len 0 of
                  None \<Rightarrow> None
                | Some (Inl f) \<Rightarrow> Some (Inl f)
                | Some (Inr w2) \<Rightarrow> Some (Inr (Inr w2)))
             else Some (Inr (Inr w1)))"

definition receive_response ::
  "crud_hdr \<Rightarrow> socket_env \<Rightarrow> byte list
     \<Rightarrow> (fault + socket_env \<times> CrudResponse \<times> byte list) option" where
  "receive_response H w buf =
     (case sock_read w 8 of
        None \<Rightarrow> None
      | Some (w1, r, bs) \<Rightarrow>
          if r \<noteq> 8 then Some (Inr (w1, - 1, buf))
          else
            (let op = be_word bs;
                 request = (ucast (drop_bit 60 (push_bit 32 op)) :: 8 word);
                 len = (ucast (drop_bit 40 (push_bit 36 op)) :: 32 word)
             in case (if request = req_code H CRUD_READ then
                        (case recv_loop w1 (malloc H (unat len)) len 0 of
                           None \<Rightarrow> None
                         | Some (Inl f) \<Rightarrow> Some (Inl f)
                         | Some (Inr (w2, tempBuf)) \<Rightarrow>
                             Some (Inr (w2, memcpy buf 0 tempBuf (unat len))))
                      else Some (Inr (w1, buf))) of
                  None \<Rightarrow> None
                | Some (Inl f) \<Rightarrow> Some (Inl f)
                | Some (Inr (w2, buf')) \<Rightarrow>
                    Some (Inr (if request = req_code H CRUD_CLOSE then w2\<lparr>CONNECTED := 0\<rparr>
                               else w2,
                               op, buf'))))"

definition crud_client_operation ::
  "crud_hdr \<Rightarrow> socket_env \<Rightarrow> CrudRequest \<Rightarrow> byte list
     \<Rightarrow> (fault + socket_env \<times> CrudResponse \<times> byte list) option" where
  "crud_client_operation H w op buf =
     (case connect_block w of
        Inl w0 \<Rightarrow> Some (Inr (w0, - 1, buf))
      | Inr w0 \<Rightarrow>
          (case send_request H w0 op buf of
             None \<Rightarrow> None
           | Some (Inl f) \<Rightarrow> Some (Inl f)
           | Some (Inr (Inl w1)) \<Rightarrow> Some (Inr (w1, - 1, buf))
           | Some (Inr (Inr w1)) \<Rightarrow> receive_response H w1 buf))"

text \<open>A connected socket with a script, for evaluation.\<close>

definition socket0 :: "int list \<Rightarrow> byte list option list \<Rightarrow> socket_env" where
  "socket0 ws rs =
     \<lparr>CONNECTED = 1, inet_aton_ret = 1, socket_ret = 3, connect_ret = 0,
      write_rets = ws, arrivals = rs, sent = []\<rparr>"

text \<open>
  The bytes still to come on a socket on which no read fails: the runs of \<open>arrivals\<close>
  joined.
\<close>

definition stream_of :: "byte list option list \<Rightarrow> byte list" where
  "stream_of as = concat (map (\<lambda>a. case a of None \<Rightarrow> [] | Some bs \<Rightarrow> bs) as)"

text \<open>
  The words of the statement about the exchange. \<open>connects\<close>: the connection is there
  or the connection block makes it. \<open>payload_out\<close> is the number of payload bytes that
  follow a request word, which is its length field for CREATE and UPDATE and 0
  otherwise; \<open>payload_in\<close> is the number of payload bytes that follow a response word,
  its length field for READ and 0 otherwise (the fields as \<^verbatim>\<open>crud_client_operation\<close>
  isolates them, \<^verbatim>\<open>(op << 32) >> 60\<close> and \<^verbatim>\<open>(op << 36) >> 40\<close>).

  \<open>send_goes_through\<close>: the connection is made, the first \<^verbatim>\<open>write\<close> accepts the eight
  bytes of the request word, no later \<^verbatim>\<open>write\<close> fails, and the later calls accept, in
  pieces of any size, at least the bytes of the payload; the buffer holds the
  payload. \<open>receive_goes_through\<close>: the first \<^verbatim>\<open>read\<close> delivers the eight bytes of the
  response word, no later \<^verbatim>\<open>read\<close> fails, and the stream holds, in runs of any size, at
  least the payload that this word announces.
\<close>

definition connects :: "socket_env \<Rightarrow> bool" where
  "connects w \<longleftrightarrow> (case connect_block w of Inl w0 \<Rightarrow> False | Inr w0 \<Rightarrow> True)"

definition payload_out :: "crud_hdr \<Rightarrow> CrudRequest \<Rightarrow> nat" where
  "payload_out H op =
     (if fst (snd (extract_crud_response op)) = req_code H CRUD_CREATE
         \<or> fst (snd (extract_crud_response op)) = req_code H CRUD_UPDATE
      then unat (fst (snd (snd (extract_crud_response op)))) else 0)"

definition payload_in :: "crud_hdr \<Rightarrow> CrudResponse \<Rightarrow> nat" where
  "payload_in H response =
     (if fst (snd (extract_crud_response response)) = req_code H CRUD_READ
      then unat (fst (snd (snd (extract_crud_response response)))) else 0)"

definition send_goes_through :: "crud_hdr \<Rightarrow> socket_env \<Rightarrow> CrudRequest \<Rightarrow> byte list \<Rightarrow> bool" where
  "send_goes_through H w op buf \<longleftrightarrow>
     connects w \<and> payload_out H op \<le> length buf
     \<and> (case write_rets w of
          [] \<Rightarrow> False
        | r # rs \<Rightarrow> 8 \<le> r \<and> (\<forall>v \<in> set rs. 0 \<le> v) \<and> payload_out H op \<le> sum_list (map nat rs))"

definition receive_goes_through :: "crud_hdr \<Rightarrow> socket_env \<Rightarrow> bool" where
  "receive_goes_through H w \<longleftrightarrow>
     (case arrivals w of
        [] \<Rightarrow> False
      | None # rest \<Rightarrow> False
      | Some bs # rest \<Rightarrow>
          8 \<le> length bs \<and> (\<forall>a \<in> set rest. a \<noteq> None)
          \<and> 8 + payload_in H (be_word (take 8 bs)) \<le> length (stream_of (arrivals w)))"



text \<open>
  The cursor invariant of the spec, \<open>0 \<le> position \<le> length\<close> for every entry (the
  lower bound always holds for an unsigned position), and the form in which it is
  proved: together with the bound on the length that comes from the 24-bit length
  field.
\<close>

definition cursor_inv :: "CrudFileAllocationType list \<Rightarrow> bool" where
  "cursor_inv tbl \<longleftrightarrow> (\<forall>e \<in> set tbl. 0 \<le> position e \<and> position e \<le> length_f e)"

definition cursor_ok :: "CrudFileAllocationType list \<Rightarrow> bool" where
  "cursor_ok tbl \<longleftrightarrow> (\<forall>e \<in> set tbl. position e \<le> length_f e \<and> length_f e < 2 ^ 24)"

text \<open>
  A successful response reports the true length of the object when, for a READ, it
  reports the length the entry has recorded for the object, and for an UPDATE or a
  CREATE, the length its request announced.
\<close>

definition reports_true_length ::
  "CrudFileAllocationType
     \<Rightarrow> CRUD_REQUEST_TYPES \<times> CrudRequest \<times> byte list \<times> CrudResponse \<Rightarrow> bool" where
  "reports_true_length e ex \<longleftrightarrow>
     (case ex of
        (tag, request, buf, response) \<Rightarrow>
          snd (snd (snd (snd (extract_crud_response response)))) = 0 \<longrightarrow>
            (tag = CRUD_READ \<longrightarrow>
               fst (snd (snd (extract_crud_response response))) = length_f e)
            \<and> (tag = CRUD_UPDATE \<or> tag = CRUD_CREATE \<longrightarrow>
                 fst (snd (snd (extract_crud_response response)))
                   = fst (snd (snd (extract_crud_response request)))))"

text \<open>
  The exchanges that a call added to the record, and the conditions under which the
  cursor invariant is kept by one call: the call is one of the five file operations,
  it returns success, the responses it received report true lengths, and a write
  ends within the 24 bits of the length field.
\<close>

definition new_exchanges ::
  "'n driver \<Rightarrow> 'n driver
     \<Rightarrow> (CRUD_REQUEST_TYPES \<times> CrudRequest \<times> byte list \<times> CrudResponse) list" where
  "new_exchanges st st' = drop (length (issued st)) (issued st')"

fun step_ok :: "crud_hdr \<Rightarrow> 'n exchange \<Rightarrow> 'n driver \<Rightarrow> crud_op \<Rightarrow> bool" where
  "step_ok H x st (Open path) \<longleftrightarrow> snd (crud_step H x st (Open path)) \<noteq> - 1"
| "step_ok H x st (Close fd) \<longleftrightarrow> snd (crud_step H x st (Close fd)) = 0"
| "step_ok H x st (Seek fd loc) \<longleftrightarrow> snd (crud_step H x st (Seek fd loc)) = 0"
| "step_ok H x st (Read fd buf count) \<longleftrightarrow>
     snd (crud_step H x st (Read fd buf count)) \<noteq> - 1
     \<and> (\<forall>ex \<in> set (new_exchanges st (fst (crud_step H x st (Read fd buf count)))).
          reports_true_length (crud_file_table st ! nat (sint fd)) ex)"
| "step_ok H x st (Write fd buf count) \<longleftrightarrow>
     snd (crud_step H x st (Write fd buf count)) \<noteq> - 1
     \<and> (1 \<le> sint count \<longrightarrow>
          unat (position (crud_file_table st ! nat (sint fd))) + unat count < 2 ^ 24)
     \<and> (\<forall>ex \<in> set (new_exchanges st (fst (crud_step H x st (Write fd buf count)))).
          reports_true_length (crud_file_table st ! nat (sint fd)) ex)"
| "step_ok H x st Format \<longleftrightarrow> False"
| "step_ok H x st Mount \<longleftrightarrow> False"
| "step_ok H x st Unmount \<longleftrightarrow> False"

fun all_ok :: "crud_hdr \<Rightarrow> 'n exchange \<Rightarrow> 'n driver \<Rightarrow> crud_op list \<Rightarrow> bool" where
  "all_ok H x st [] \<longleftrightarrow> True"
| "all_ok H x st (c # cs) \<longleftrightarrow> step_ok H x st c \<and> all_ok H x (fst (crud_step H x st c)) cs"

text \<open>
  Process start with a table of one entry, and a store that answers INIT, a CREATE of
  three bytes and a READ.
\<close>

definition st_run0 :: "(CrudResponse \<times> byte list) list driver" where
  "st_run0 =
     driver0 0 (table0 1)
       [(0, []), (create_crud_request 7 2 3 0 0, []),
        (create_crud_request 7 3 3 0 0, [1, 2, 3])]"

section \<open>Properties\<close>

subsection \<open>Projections of the helpers\<close>

lemma client_call_fields [simp]:
  "INITIALIZED (fst (client_call x st tag rq buf)) = INITIALIZED st"
  "crud_file_table (fst (client_call x st tag rq buf)) = crud_file_table st"
  "bus (fst (client_call x st tag rq buf)) = fst (x (bus st) rq buf)"
  "issued (fst (client_call x st tag rq buf))
     = issued st @ [(tag, rq, buf, fst (snd (x (bus st) rq buf)))]"
  "fst (snd (client_call x st tag rq buf)) = fst (snd (x (bus st) rq buf))"
  "snd (snd (client_call x st tag rq buf)) = snd (snd (x (bus st) rq buf))"
  by (simp_all add: client_call_def split_beta)

lemma set_entry_fields [simp]:
  "INITIALIZED (set_entry st i e) = INITIALIZED st"
  "crud_file_table (set_entry st i e) = (crud_file_table st)[i := e]"
  "bus (set_entry st i e) = bus st"
  "issued (set_entry st i e) = issued st"
  by (simp_all add: set_entry_def)

lemma extract_into_entry_fields [simp]:
  "INITIALIZED (fst (extract_into_entry st i r)) = INITIALIZED st"
  "crud_file_table (fst (extract_into_entry st i r))
     = (crud_file_table st)[i := (crud_file_table st ! i)
          \<lparr>object_id := fst (extract_crud_response r),
           length_f := fst (snd (snd (extract_crud_response r)))\<rparr>]"
  "bus (fst (extract_into_entry st i r)) = bus st"
  "issued (fst (extract_into_entry st i r)) = issued st"
  "snd (extract_into_entry st i r) = snd (snd (snd (snd (extract_crud_response r))))"
  by (simp_all add: extract_into_entry_def split_beta)

lemma init_block_fields [simp]:
  "crud_file_table (fst (init_block H x st)) = crud_file_table st"
  "INITIALIZED st \<noteq> 0 \<Longrightarrow> init_block H x st = (st, True)"
  by (simp_all add: init_block_def split_beta)

lemma init_block_flag:
  "INITIALIZED (fst (init_block H x st)) \<noteq> 0 \<longleftrightarrow> snd (init_block H x st)"
  by (simp add: init_block_def split_beta)

lemma INITIALIZED_write_case0 [simp]:
  "INITIALIZED (fst (write_case0 H x st i b count)) = INITIALIZED st"
  by (simp add: write_case0_def Let_def split_beta)

lemma INITIALIZED_write_case1 [simp]:
  "INITIALIZED (fst (write_case1 H x st i b count)) = INITIALIZED st"
  by (simp add: write_case1_def Let_def split_beta)

lemma INITIALIZED_write_case2 [simp]:
  "INITIALIZED (fst (write_case2 H x st i b count)) = INITIALIZED st"
  by (simp add: write_case2_def Let_def split_beta)

lemma INITIALIZED_crud_write [simp]:
  "INITIALIZED (fst (crud_write H x st fd buf count)) = INITIALIZED st"
  by (simp add: crud_write_def Let_def split: option.split)

lemma INITIALIZED_crud_read [simp]:
  "INITIALIZED (fst (crud_read H x st fd buf count)) = INITIALIZED st"
  by (simp add: crud_read_def Let_def split_beta split: option.split)

lemma INITIALIZED_crud_seek [simp]:
  "INITIALIZED (fst (crud_seek st fd loc)) = INITIALIZED st"
  by (simp add: crud_seek_def Let_def)

lemma INITIALIZED_crud_close [simp]:
  "INITIALIZED (fst (crud_close st fd)) = INITIALIZED st"
  by (simp add: crud_close_def Let_def)

lemma INITIALIZED_crud_unmount [simp]:
  "INITIALIZED (fst (crud_unmount H x st)) = INITIALIZED st"
  by (simp add: crud_unmount_def Let_def split_beta)

lemma table_crud_unmount [simp]:
  "crud_file_table (fst (crud_unmount H x st)) = crud_file_table st"
  by (simp add: crud_unmount_def Let_def split_beta)


subsection \<open>Validation failures\<close>




lemma crud_close_invalid: "bad_handle st fd \<Longrightarrow> crud_close st fd = (st, - 1)"
  unfolding bad_handle_def crud_close_def Let_def
  by (cases "sint fd < 0 \<or> sint fd > int (length (crud_file_table st)) - 1")
    (simp_all split del: if_split)

lemma crud_seek_invalid:
  "bad_handle st fd \<or> loc > length_f (crud_file_table st ! nat (sint fd))
     \<Longrightarrow> crud_seek st fd loc = (st, - 1)"
  unfolding bad_handle_def crud_seek_def Let_def
  by (cases "sint fd < 0 \<or> sint fd > int (length (crud_file_table st)) - 1";
      cases "open_f (crud_file_table st ! nat (sint fd)) = 0")
    (simp_all split del: if_split)

lemma crud_read_invalid:
  "bad_handle st fd \<or> buf = None \<Longrightarrow> crud_read H x st fd buf count = (st, - 1, buf)"
  unfolding bad_handle_def crud_read_def Let_def
  by (cases "sint fd < 0 \<or> sint fd > int (length (crud_file_table st)) - 1";
      cases "open_f (crud_file_table st ! nat (sint fd)) = 0")
    (simp_all split del: if_split)

lemma crud_write_invalid:
  "bad_handle st fd \<or> buf = None \<Longrightarrow> crud_write H x st fd buf count = (st, - 1)"
  unfolding bad_handle_def crud_write_def Let_def
  by (cases "sint fd < 0 \<or> sint fd > int (length (crud_file_table st)) - 1";
      cases "open_f (crud_file_table st ! nat (sint fd)) = 0")
    (simp_all split del: if_split)


subsection \<open>The start-up condition is kept by every call\<close>

lemma startup_bad_handle:
  assumes "startup_inv st" and "INITIALIZED st = 0"
  shows "bad_handle st fd"
proof (cases "sint fd < 0 \<or> sint fd > int (length (crud_file_table st)) - 1")
  case True
  then show ?thesis by (auto simp add: bad_handle_def)
next
  case False
  then have "nat (sint fd) < length (crud_file_table st)" by auto
  then have "crud_file_table st ! nat (sint fd) \<in> set (crud_file_table st)" by simp
  with assms have "open_f (crud_file_table st ! nat (sint fd)) = 0"
    unfolding startup_inv_def by blast
  then show ?thesis by (simp add: bad_handle_def)
qed

lemma startup_inv_flag: "INITIALIZED st \<noteq> 0 \<Longrightarrow> startup_inv st"
  by (simp add: startup_inv_def)

lemma startup_inv_same:
  "startup_inv st \<Longrightarrow> INITIALIZED st' = INITIALIZED st
     \<Longrightarrow> crud_file_table st' = crud_file_table st \<Longrightarrow> startup_inv st'"
  by (simp add: startup_inv_def)

lemma startup_inv_init_block: "startup_inv st \<Longrightarrow> startup_inv (fst (init_block H x st))"
proof (cases "snd (init_block H x st)")
  case True
  then show ?thesis using init_block_flag [of H x st] by (simp add: startup_inv_flag)
next
  case False
  assume inv: "startup_inv st"
  from False have z: "INITIALIZED (fst (init_block H x st)) = 0"
    using init_block_flag [of H x st] by simp
  have "INITIALIZED st = 0"
  proof (rule ccontr)
    assume "INITIALIZED st \<noteq> 0"
    then have "init_block H x st = (st, True)" by simp
    with False show False by simp
  qed
  with inv z show ?thesis by (auto intro: startup_inv_same)
qed

lemma startup_inv_format: "startup_inv st \<Longrightarrow> startup_inv (fst (crud_format H x st))"
proof (cases "snd (init_block H x st)")
  case True
  then have "INITIALIZED (fst (init_block H x st)) \<noteq> 0" using init_block_flag [of H x st] by simp
  then have "INITIALIZED (fst (crud_format H x st)) \<noteq> 0"
    using True by (simp add: crud_format_def Let_def split_beta)
  then show ?thesis by (rule startup_inv_flag)
next
  case False
  assume "startup_inv st"
  then have "startup_inv (fst (init_block H x st))" by (rule startup_inv_init_block)
  with False show ?thesis by (simp add: crud_format_def Let_def split_beta)
qed

lemma startup_inv_mount: "startup_inv st \<Longrightarrow> startup_inv (fst (crud_mount H x st))"
proof (cases "snd (init_block H x st)")
  case True
  then have "INITIALIZED (fst (init_block H x st)) \<noteq> 0" using init_block_flag [of H x st] by simp
  then have "INITIALIZED (fst (crud_mount H x st)) \<noteq> 0"
    using True by (simp add: crud_mount_def Let_def split_beta)
  then show ?thesis by (rule startup_inv_flag)
next
  case False
  assume "startup_inv st"
  then have "startup_inv (fst (init_block H x st))" by (rule startup_inv_init_block)
  with False show ?thesis by (simp add: crud_mount_def Let_def split_beta)
qed

lemma startup_inv_open: "startup_inv st \<Longrightarrow> startup_inv (fst (crud_open H x st path))"
proof (cases "snd (init_block H x st)")
  case True
  then have "INITIALIZED (fst (init_block H x st)) \<noteq> 0" using init_block_flag [of H x st] by simp
  then have "INITIALIZED (fst (crud_open H x st path)) \<noteq> 0"
    using True by (simp add: crud_open_def split_beta split: option.split)
  then show ?thesis by (rule startup_inv_flag)
next
  case False
  assume "startup_inv st"
  then have "startup_inv (fst (init_block H x st))" by (rule startup_inv_init_block)
  with False show ?thesis by (simp add: crud_open_def split_beta)
qed

lemma startup_inv_step:
  assumes "startup_inv st"
  shows "startup_inv (fst (crud_step H x st c))"
proof (cases "INITIALIZED st = 0")
  case True
  note z = this
  show ?thesis
  proof (cases c)
    case Format
    with assms show ?thesis by (simp add: split_beta startup_inv_format)
  next
    case Mount
    with assms show ?thesis by (simp add: split_beta startup_inv_mount)
  next
    case Unmount
    with assms show ?thesis by (simp add: split_beta startup_inv_same [of st])
  next
    case (Open path)
    with assms show ?thesis by (simp add: split_beta startup_inv_open)
  next
    case (Close fd)
    with assms z show ?thesis
      by (simp add: crud_close_invalid startup_bad_handle)
  next
    case (Seek fd loc)
    with assms z show ?thesis
      by (simp add: crud_seek_invalid startup_bad_handle)
  next
    case (Read fd buf count)
    with assms z show ?thesis
      by (simp add: crud_read_invalid startup_bad_handle)
  next
    case (Write fd buf count)
    with assms z show ?thesis
      by (simp add: crud_write_invalid startup_bad_handle)
  qed
next
  case False
  show ?thesis
  proof (cases c)
    case Format
    with assms show ?thesis by (simp add: split_beta startup_inv_format)
  next
    case Mount
    with assms show ?thesis by (simp add: split_beta startup_inv_mount)
  next
    case Unmount
    with assms show ?thesis by (simp add: split_beta startup_inv_same [of st])
  next
    case (Open path)
    with assms show ?thesis by (simp add: split_beta startup_inv_open)
  next
    case (Close fd)
    with False show ?thesis by (simp add: split_beta startup_inv_flag)
  next
    case (Seek fd loc)
    with False show ?thesis by (simp add: split_beta startup_inv_flag)
  next
    case (Read fd buf count)
    with False show ?thesis by (simp add: split_beta startup_inv_flag)
  next
    case (Write fd buf count)
    with False show ?thesis by (simp add: split_beta startup_inv_flag)
  qed
qed

lemma startup_inv_run: "startup_inv st \<Longrightarrow> startup_inv (crud_run H x st cs)"
  by (induction cs arbitrary: st) (simp_all add: startup_inv_step)

subsection \<open>Pack, then unpack\<close>

lemma take_bit_self_word: "(w::'a::len word) < 2 ^ n \<Longrightarrow> take_bit n w = w"
  by (simp add: take_bit_eq_mask less_mask_eq)

lemma bit_times_two_word64:
  "bit (x * 2 :: 64 word) n \<longleftrightarrow> n \<noteq> 0 \<and> n < 64 \<and> bit x (n - 1)"
  using bit_double_iff [of x n]
  by (auto simp add: mult.commute bit_simps dest: bit_imp_le_length)

lemma extract_create_take_bit:
  "extract_crud_response
     (create_crud_request oid (take_bit 4 req) (take_bit 24 len) (take_bit 3 flag)
        (take_bit 1 rslt))
   = (oid, take_bit 4 req, take_bit 24 len, take_bit 3 flag, take_bit 1 rslt)"
  unfolding extract_crud_response_def create_crud_request_def
  apply (simp only: prod.inject)
  apply (intro conjI bit_word_eqI)
      apply (auto simp add: bit_simps bit_times_two_word64 dest: bit_imp_le_length)
  done

lemma extract_create:
  "req < 16 \<Longrightarrow> len < 2 ^ 24 \<Longrightarrow> flag < 8 \<Longrightarrow> rslt < 2 \<Longrightarrow>
   extract_crud_response (create_crud_request oid req len flag rslt)
     = (oid, req, len, flag, rslt)"
  using extract_create_take_bit [of oid req len flag rslt]
    take_bit_self_word [of req 4] take_bit_self_word [of len 24]
    take_bit_self_word [of flag 3] take_bit_self_word [of rslt 1]
  by simp

text \<open>
  Claim C6. Whenever the request code is below \<open>2 ^ 4\<close>, the length below \<open>2 ^ 24\<close>, the
  flag below \<open>2 ^ 3\<close> and the result below \<open>2\<close> (an object identifier is a 32-bit
  value, so it is always below \<open>2 ^ 32\<close>), unpacking the word built by
  \<open>create_crud_request\<close> gives back the five values that were packed.
\<close>

theorem codec_round_trip:
  assumes "unat oid < 2 ^ 32" and "unat req < 2 ^ 4" and "unat len < 2 ^ 24"
    and "unat flag < 2 ^ 3" and "unat rslt < 2"
  shows "extract_crud_response (create_crud_request oid req len flag rslt)
           = (oid, req, len, flag, rslt)"
proof -
  have "req < 16" "len < 2 ^ 24" "flag < 8" "rslt < 2"
    using assms by (simp_all add: word_less_nat_alt)
  then show ?thesis by (rule extract_create)
qed

theorem codec_round_trip_witness:
  "unat (7 :: 32 word) < 2 ^ 32 \<and> unat (3 :: 8 word) < 2 ^ 4 \<and> unat (500 :: 32 word) < 2 ^ 24
     \<and> unat (5 :: 8 word) < 2 ^ 3 \<and> unat (1 :: 8 word) < 2
     \<and> extract_crud_response (create_crud_request 7 3 500 5 1) = (7, 3, 500, 5, 1)"
  using codec_round_trip [of 7 3 500 5 1] by simp

subsection \<open>Validation errors\<close>



subsection \<open>Matching of names in \<^verbatim>\<open>crud_open\<close>\<close>

text \<open>
  Claim C3 (the code departs from it). \<^verbatim>\<open>crud_open\<close> compares names with
  \<^verbatim>\<open>strncmp(filename, path, strlen(path))\<close>, which is 0 as soon as \<open>path\<close> is a prefix of
  the entry's name. On a formatted table of two entries, opening \<open>abc\<close> and then \<open>ab\<close>
  returns handle 0 both times: the second call reuses the entry of \<open>abc\<close>, no entry named
  \<open>ab\<close> is made, and the free slot 1 stays unused.
\<close>

theorem crud_open_reuses_entry_with_longer_name:
  "(case crud_open hdr0 scripted (driver0 1 (table0 2) []) ''abc'' of
      (s1, fd1) \<Rightarrow>
        (case crud_open hdr0 scripted s1 ''ab'' of
           (s2, fd2) \<Rightarrow>
             fd1 = 0 \<and> fd2 = 0
               \<and> map filename (crud_file_table s2) = [''abc'', []]
               \<and> map open_f (crud_file_table s2) = [1, 0]))"
  by code_simp

text \<open>
  Claim C9 (the code departs from it, by the same defect as in C3). On a formatted
  table of two entries, \<open>ab\<close> is opened into slot 0 and \<open>abc\<close> into slot 1; four bytes are
  written to \<open>abc\<close>, which is then closed with its cursor at 4. The name \<open>ab\<close> is in the
  table, in slot 0. Opening \<open>ab\<close> again returns handle 1: the call leaves the entry named
  \<open>ab\<close> as it is, and changes the entry named \<open>abc\<close>, which it marks open and rewinds
  from 4 to 0.
\<close>

theorem crud_open_reopens_other_entry:
  "(case crud_step hdr0 scripted
           (crud_run hdr0 scripted (driver0 1 (table0 2) [(create_crud_request 7 2 4 0 0, [])])
              [Open ''ab'', Open ''abc'', Write 1 (Some [1, 2, 3, 4]) 4, Close 1])
           (Open ''ab'') of
      (s4, fd4) \<Rightarrow>
        fd4 = 1
          \<and> crud_file_table
               (crud_run hdr0 scripted (driver0 1 (table0 2) [(create_crud_request 7 2 4 0 0, [])])
                  [Open ''ab'', Open ''abc'', Write 1 (Some [1, 2, 3, 4]) 4, Close 1])
              = [\<lparr>filename = ''ab'', object_id = 0, position = 0, length_f = 0, open_f = 1\<rparr>,
                 \<lparr>filename = ''abc'', object_id = 7, position = 4, length_f = 4, open_f = 0\<rparr>]
          \<and> crud_file_table s4
              = [\<lparr>filename = ''ab'', object_id = 0, position = 0, length_f = 0, open_f = 1\<rparr>,
                 \<lparr>filename = ''abc'', object_id = 7, position = 0, length_f = 4, open_f = 1\<rparr>])"
  by code_simp

subsection \<open>\<^verbatim>\<open>crud_read\<close>\<close>

lemma sint_succ_less:
  assumes "sint (i :: 32 word) < sint (count :: 32 word)"
  shows "sint (i + 1) = sint i + 1"
proof -
  have "sint count < 2 ^ 31" using sint_lt [of count] by simp
  moreover have "- (2 ^ 31) \<le> sint i" using sint_ge [of i] by simp
  ultimately have "- (2 ^ 31) \<le> sint i + 1" "sint i + 1 < 2 ^ 31" using assms by simp_all
  then have "signed_take_bit 31 (sint i + 1) = sint i + 1"
    by (simp add: signed_take_bit_int_eq_self)
  then show ?thesis by (simp add: sint_word_ariths)
qed

lemma map_upt_shift: "map f [0..<Suc n] = f 0 # map (\<lambda>k. f (Suc k)) [0..<n]"
  by (simp add: upt_conv_Cons map_Suc_upt [symmetric] del: upt_Suc)

lemma read_loop_closed:
  "read_loop tb len pos i count out =
     (pos + of_nat (min (unat len - unat pos) (nat (sint count - sint i))),
      i + of_nat (min (unat len - unat pos) (nat (sint count - sint i))),
      out @ map (\<lambda>k. tb ! (unat pos + k))
              [0..<min (unat len - unat pos) (nat (sint count - sint i))])"
proof (induction tb len pos i count out rule: read_loop.induct)
  case (1 tempBuf len pos i count out)
  show ?case
  proof (cases "pos < len \<and> sint i < sint count")
    case True
    then have p: "unat (pos + 1) = Suc (unat pos)" and s: "sint (i + 1) = sint i + 1"
      using unat_succ_less [of pos len] sint_succ_less [of i count] by simp_all
    from True have "unat pos < unat len" by (simp add: word_less_nat_alt)
    with True have m: "min (unat len - unat pos) (nat (sint count - sint i))
        = Suc (min (unat len - Suc (unat pos)) (nat (sint count - (sint i + 1))))"
      by (simp add: min_def) linarith
    show ?thesis
      apply (subst read_loop.simps)
      apply (simp only: True if_True "1.IH" [OF True] p s m)
      apply (simp add: map_upt_shift del: upt_Suc)
      done
  next
    case False
    then have "min (unat len - unat pos) (nat (sint count - sint i)) = 0"
      by (auto simp add: word_less_nat_alt min_def)
    moreover have "read_loop tempBuf len pos i count out = (pos, i, out)"
      using False by (subst read_loop.simps) (simp only: if_False)
    ultimately show ?thesis by simp
  qed
qed


lemma good_handle:
  "\<not> bad_handle st fd \<longleftrightarrow>
     \<not> (sint fd < 0 \<or> sint fd > int (length (crud_file_table st)) - 1)
     \<and> nat (sint fd) < length (crud_file_table st)
     \<and> open_f (crud_file_table st ! nat (sint fd)) \<noteq> 0"
  by (auto simp add: bad_handle_def)

lemma nat_sint_pos:
  assumes "0 \<le> sint (w :: 32 word)"
  shows "nat (sint w) = unat w"
proof -
  have "sint w < 2 ^ 32" using sint_lt [of w] by simp
  with assms have "take_bit 32 (sint w) = sint w" by (simp add: take_bit_int_eq_self)
  then have "uint w = sint w" using uint_sint [of w] by simp
  then show ?thesis by (simp add: unat_eq_nat_uint)
qed

text \<open>
  Claim C4. For a handle that is in range and open and a buffer that is not null:
  if the entry's length is 0 or \<open>count < 1\<close>, \<^verbatim>\<open>crud_read\<close> returns 0 and gives back the
  state unchanged, so no exchange is made. Otherwise, when the READ exchange answers
  with result 0, length \<open>len\<close> and the object's bytes \<open>obj\<close> in the buffer, the call
  returns \<open>k = min count (len - position)\<close>, which is 0 when the position is at or past
  \<open>len\<close>; the caller's buffer then holds \<open>obj[position .. position + k)\<close> in its first \<open>k\<close>
  bytes and is unchanged after them, and the position has advanced by \<open>k\<close>. The length
  \<open>len\<close> is the one the response reports: the call stores it in the entry before it
  copies, so it is the entry's length from then on (and the entry's length before the
  call whenever the store reports the length the table has recorded).
\<close>

theorem crud_read_postcondition:
  assumes "\<not> bad_handle st fd"
  shows "(length_f (crud_file_table st ! nat (sint fd)) = 0 \<or> sint count < 1
            \<longrightarrow> crud_read H x st fd (Some b) count = (st, 0, Some b))
     \<and> (length_f (crud_file_table st ! nat (sint fd)) \<noteq> 0 \<and> 1 \<le> sint count
          \<and> x (bus st)
               (create_crud_request (object_id (crud_file_table st ! nat (sint fd)))
                  (req_code H CRUD_READ) (CRUD_MAX_OBJECT_SIZE H) 0 0)
               (malloc H (unat (CRUD_MAX_OBJECT_SIZE H))) = (n', response, obj)
          \<and> extract_crud_response response = (oid, req, len, flag, 0)
        \<longrightarrow> (let pos = position (crud_file_table st ! nat (sint fd));
                 k = min (unat count) (unat len - unat pos);
                 r = crud_read H x st fd (Some b) count
             in unat (fst (snd r)) = k
                \<and> snd (snd r) = Some (map (\<lambda>j. obj ! (unat pos + j)) [0..<k] @ drop k b)
                \<and> crud_file_table (fst r)
                    = (crud_file_table st)[nat (sint fd) :=
                        (crud_file_table st ! nat (sint fd))
                          \<lparr>object_id := oid, length_f := len,
                           position := pos + of_nat k\<rparr>]
                \<and> bus (fst r) = n'))"
proof (intro conjI impI)
  from assms have g: "\<not> (sint fd < 0 \<or> sint fd > int (length (crud_file_table st)) - 1)"
    and i: "nat (sint fd) < length (crud_file_table st)"
    and o: "open_f (crud_file_table st ! nat (sint fd)) \<noteq> 0"
    by (simp_all add: good_handle)
  {
    assume "length_f (crud_file_table st ! nat (sint fd)) = 0 \<or> sint count < 1"
    then show "crud_read H x st fd (Some b) count = (st, 0, Some b)"
      using g o unfolding crud_read_def Let_def
      by (cases "length_f (crud_file_table st ! nat (sint fd)) = 0")
        (simp_all split del: if_split)
  }
  {
    assume h: "length_f (crud_file_table st ! nat (sint fd)) \<noteq> 0 \<and> 1 \<le> sint count
          \<and> x (bus st)
               (create_crud_request (object_id (crud_file_table st ! nat (sint fd)))
                  (req_code H CRUD_READ) (CRUD_MAX_OBJECT_SIZE H) 0 0)
               (malloc H (unat (CRUD_MAX_OBJECT_SIZE H))) = (n', response, obj)
          \<and> extract_crud_response response = (oid, req, len, flag, 0)"
    define pos where "pos = position (crud_file_table st ! nat (sint fd))"
    define k where "k = min (unat count) (unat len - unat pos)"
    from h have c: "nat (sint count) = unat count" by (simp add: nat_sint_pos)
    have kk: "min (unat len - unat pos) (nat (sint count)) = k"
      using c by (simp add: k_def min.commute)
    have "unat count < 2 ^ 32" using unsigned_less [of count] by simp
    then have "k < 2 ^ 32" by (simp add: k_def)
    then have uk: "unat (of_nat k :: 32 word) = k" by (simp add: unat_of_nat)
    have nc: "\<not> sint count < 1" using h by simp
    show "let pos = position (crud_file_table st ! nat (sint fd));
                 k = min (unat count) (unat len - unat pos);
                 r = crud_read H x st fd (Some b) count
             in unat (fst (snd r)) = k
                \<and> snd (snd r) = Some (map (\<lambda>j. obj ! (unat pos + j)) [0..<k] @ drop k b)
                \<and> crud_file_table (fst r)
                    = (crud_file_table st)[nat (sint fd) :=
                        (crud_file_table st ! nat (sint fd))
                          \<lparr>object_id := oid, length_f := len,
                           position := pos + of_nat k\<rparr>]
                \<and> bus (fst r) = n'"
      unfolding Let_def pos_def [symmetric] k_def [symmetric]
      using g o i h nc
      by (simp add: crud_read_def Let_def split_beta read_loop_closed pos_def [symmetric]
          kk uk memcpy_def split del: if_split)
  }
qed


theorem crud_read_postcondition_witness:
  "\<not> bad_handle st_read0 0
   \<and> length_f (crud_file_table st_read0 ! nat (sint (0 :: 16 word))) \<noteq> 0
   \<and> 1 \<le> sint (10 :: 32 word)
   \<and> scripted (bus st_read0) (create_crud_request 7 3 16 0 0) (replicate 16 0)
        = ([], create_crud_request 7 3 5 0 0, [10, 11, 12, 13, 14] @ replicate 11 0)
   \<and> extract_crud_response (create_crud_request 7 3 5 0 0) = (7, 3, 5, 0, 0)
   \<and> unat (fst (snd (crud_read hdr0 scripted st_read0 0 (Some [0, 0, 0, 0]) 10))) = 2
   \<and> snd (snd (crud_read hdr0 scripted st_read0 0 (Some [0, 0, 0, 0]) 10))
        = Some [13, 14, 0, 0]
   \<and> map position (crud_file_table (fst (crud_read hdr0 scripted st_read0 0 (Some [0, 0, 0, 0]) 10)))
        = [5]"
proof -
  have nb: "\<not> bad_handle st_read0 0" by code_simp
  have h1: "length_f (crud_file_table st_read0 ! nat (sint (0 :: 16 word))) \<noteq> 0" by code_simp
  have h2: "1 \<le> sint (10 :: 32 word)" by simp
  have h3: "scripted (bus st_read0) (create_crud_request 7 3 16 0 0) (replicate 16 0)
        = ([], create_crud_request 7 3 5 0 0, [10, 11, 12, 13, 14] @ replicate 11 0)"
    by code_simp
  have h4: "extract_crud_response (create_crud_request 7 3 5 0 0) = (7, 3, 5, 0, 0)"
    by code_simp
  have e1: "object_id (crud_file_table st_read0 ! nat (sint (0 :: 16 word))) = 7"
    and e2: "position (crud_file_table st_read0 ! nat (sint (0 :: 16 word))) = 3"
    and e3: "req_code hdr0 CRUD_READ = 3" and e4: "CRUD_MAX_OBJECT_SIZE hdr0 = 16"
    and e5: "malloc hdr0 (unat (16 :: 32 word)) = replicate 16 0"
    and e6: "[0..<2] = [0, Suc 0]"
    by code_simp+
  have e7: "crud_file_table st_read0
      = [\<lparr>filename = ''f'', object_id = 7, position = 3, length_f = 5, open_f = 1\<rparr>]"
    by (simp add: st_read0_def driver0_def)
  note th = crud_read_postcondition [OF nb, of 10 hdr0 scripted "[0, 0, 0, 0]"
      "[]" "create_crud_request 7 3 5 0 0" "[10, 11, 12, 13, 14] @ replicate 11 0" 7 3 5 0]
  from th h1 h2 h3 h4 show ?thesis
    unfolding Let_def e1 e2 e3 e4 e5
    by (simp add: nb e6 e7)
qed

subsection \<open>The INIT exchange\<close>

lemma init_outcomes_append:
  "init_outcomes (log @ [(tag, rq, buf, rsp)]) =
     init_outcomes log @
       (if tag = CRUD_INIT then [snd (snd (snd (snd (extract_crud_response rsp)))) = 0] else [])"
  by (simp add: init_outcomes_def init_exchanges_def)

lemma init_view_client_call:
  "tag \<noteq> CRUD_INIT \<Longrightarrow> init_view (fst (client_call x st tag rq buf)) = init_view st"
  by (simp add: init_view_def init_outcomes_append)

lemma init_view_set_entry [simp]: "init_view (set_entry st i e) = init_view st"
  by (simp add: init_view_def)

lemma init_view_extract [simp]: "init_view (fst (extract_into_entry st i r)) = init_view st"
  by (simp add: init_view_def)

lemma init_view_table [simp]: "init_view (st\<lparr>crud_file_table := t\<rparr>) = init_view st"
  by (simp add: init_view_def)

lemma init_view_init_block:
  "init_view (fst (init_block H x st)) =
     (if INITIALIZED st = 0
      then (if snd (init_block H x st) then 1 else 0,
            init_outcomes (issued st) @ [snd (init_block H x st)])
      else init_view st)"
  by (simp add: init_block_def init_view_def init_outcomes_append split_beta)

lemma init_view_open:
  "init_view (fst (crud_open H x st path)) = init_view (fst (init_block H x st))"
  by (simp add: crud_open_def split_beta split: option.split)

lemma init_view_format:
  "init_view (fst (crud_format H x st)) = init_view (fst (init_block H x st))"
  by (simp add: crud_format_def Let_def split_beta init_view_client_call)

lemma init_view_mount:
  "init_view (fst (crud_mount H x st)) = init_view (fst (init_block H x st))"
  by (simp add: crud_mount_def Let_def split_beta init_view_client_call)

lemma init_view_unmount: "init_view (fst (crud_unmount H x st)) = init_view st"
  by (simp add: crud_unmount_def Let_def split_beta init_view_client_call)

lemma init_view_close: "init_view (fst (crud_close st fd)) = init_view st"
  by (simp add: crud_close_def Let_def)

lemma init_view_seek: "init_view (fst (crud_seek st fd loc)) = init_view st"
  by (simp add: crud_seek_def Let_def)

lemma init_view_read: "init_view (fst (crud_read H x st fd buf count)) = init_view st"
  by (simp add: crud_read_def Let_def split_beta init_view_client_call split: option.split)

lemma init_view_write_case0: "init_view (fst (write_case0 H x st i b count)) = init_view st"
  by (simp add: write_case0_def Let_def split_beta init_view_client_call)

lemma init_view_write_case1: "init_view (fst (write_case1 H x st i b count)) = init_view st"
  by (simp add: write_case1_def Let_def split_beta init_view_client_call)

lemma init_view_write_case2: "init_view (fst (write_case2 H x st i b count)) = init_view st"
  by (simp add: write_case2_def Let_def split_beta init_view_client_call)

lemma init_view_write: "init_view (fst (crud_write H x st fd buf count)) = init_view st"
  by (simp add: crud_write_def Let_def init_view_write_case0 init_view_write_case1
      init_view_write_case2 split: option.split)

lemma init_once_init_block:
  assumes "init_once (init_view st)"
  shows "init_once (init_view (fst (init_block H x st)))"
proof (cases "INITIALIZED st = 0")
  case False
  with assms show ?thesis by (simp add: init_view_init_block)
next
  case True
  with assms obtain k where k: "init_outcomes (issued st) = replicate k False"
    by (auto simp add: init_once_def init_view_def)
  show ?thesis
  proof (cases "snd (init_block H x st)")
    case True
    with \<open>INITIALIZED st = 0\<close> k show ?thesis
      by (auto simp add: init_view_init_block init_once_def)
  next
    case False
    have "replicate k False @ [False] = replicate (Suc k) False"
      by (simp add: replicate_append_same)
    with False \<open>INITIALIZED st = 0\<close> k show ?thesis
      unfolding init_view_init_block init_once_def by (simp del: replicate_Suc)
  qed
qed

lemma init_once_step:
  assumes "init_once (init_view st)"
  shows "init_once (init_view (fst (crud_step H x st c)))"
  using assms init_once_init_block [OF assms, of H x]
  by (cases c)
    (simp_all add: split_beta init_view_format init_view_mount init_view_unmount init_view_open
      init_view_close init_view_seek init_view_read init_view_write)

lemma init_once_run:
  "init_once (init_view st) \<Longrightarrow> init_once (init_view (crud_run H x st cs))"
  by (induction cs arbitrary: st) (simp_all add: init_once_step)

text \<open>
  Claim C10, as the code has it. From process start (\<^verbatim>\<open>INITIALIZED\<close> is 0 and nothing has
  been sent), after any sequence of calls, the INIT exchanges made so far consist of
  some number of failed ones followed, exactly when \<^verbatim>\<open>INITIALIZED\<close> is set, by one that
  succeeded. So INIT succeeds at most once and is never sent again after it has
  succeeded, while a failed INIT leaves the flag at 0 and the next call sends it again.
\<close>

theorem init_succeeds_at_most_once:
  assumes "INITIALIZED st = 0" and "issued st = []"
  shows "\<exists>k. init_outcomes (issued (crud_run H x st cs))
           = replicate k False @ (if INITIALIZED (crud_run H x st cs) = 0 then [] else [True])"
proof -
  have "init_once (init_view st)"
    using assms by (simp add: init_once_def init_view_def init_outcomes_def init_exchanges_def)
  then have "init_once (init_view (crud_run H x st cs))" by (rule init_once_run)
  then show ?thesis by (simp add: init_once_def init_view_def)
qed

theorem init_succeeds_at_most_once_witness:
  "INITIALIZED (driver0 0 (table0 2) [(1, []), (0, []), (0, [])]) = 0
   \<and> issued (driver0 0 (table0 2) [(1, []), (0, []), (0, [])]) = []
   \<and> INITIALIZED (crud_run hdr0 scripted (driver0 0 (table0 2) [(1, []), (0, []), (0, [])])
         [Open ''a'', Open ''a'', Mount]) = 1
   \<and> (\<exists>k. init_outcomes (issued (crud_run hdr0 scripted
                (driver0 0 (table0 2) [(1, []), (0, []), (0, [])])
                [Open ''a'', Open ''a'', Mount]))
          = replicate k False @ [True])"
proof -
  let ?st = "driver0 0 (table0 2) [(1, []), (0, []), (0, [])]"
  have a: "INITIALIZED ?st = 0" and b: "issued ?st = []" by (simp_all add: driver0_def)
  have c: "INITIALIZED (crud_run hdr0 scripted ?st [Open ''a'', Open ''a'', Mount]) = 1"
    by code_simp
  from init_succeeds_at_most_once [OF a b, of hdr0 scripted "[Open ''a'', Open ''a'', Mount]"]
    a b c
  show ?thesis by simp
qed

text \<open>
  The claim as it is written says that the INIT request is sent at most once. With a
  store that does not answer (every exchange returns the all-ones word, result bit 1),
  two calls of \<^verbatim>\<open>crud_open\<close> send it twice.
\<close>

theorem init_sent_twice_counterexample:
  "length (init_exchanges (issued (crud_run hdr0 scripted (driver0 0 (table0 2) [])
      [Open ''a'', Open ''a'']))) = 2"
  by code_simp

subsection \<open>The exchange of \<^verbatim>\<open>client.c\<close>\<close>

lemma sock_write_head:
  "write_rets w = v # rs \<Longrightarrow> 0 \<le> v
     \<Longrightarrow> sock_write w data n
           = Some (w\<lparr>write_rets := rs, sent := sent w @ take (min (nat v) n) data\<rparr>,
                   int (min (nat v) n))"
  by (simp add: sock_write_def)

lemma unat_sub_le: "(a :: 32 word) \<le> b \<Longrightarrow> unat (b - a) = unat b - unat a"
  by (simp add: unat_sub)

lemma unat_add_small:
  assumes "(a :: 32 word) \<le> b" and "k \<le> unat b - unat a"
  shows "unat (a + of_nat k) = unat a + k" and "a + of_nat k \<le> b"
proof -
  have "unat a \<le> unat b" using assms(1) by (simp add: word_le_nat_alt)
  moreover have "unat b < 2 ^ 32" using unsigned_less [of b] by simp
  ultimately have lt: "unat a + k < 2 ^ 32" and le: "unat a + k \<le> unat b"
    using assms(2) by simp_all
  then have "k < 2 ^ 32" by simp
  then have "unat (of_nat k :: 32 word) = k" by (simp add: unat_of_nat)
  with lt show u: "unat (a + of_nat k) = unat a + k" by (simp add: unat_word_ariths)
  with le show "a + of_nat k \<le> b" by (simp add: word_le_nat_alt)
qed

lemma send_loop_completes:
  "\<forall>v \<in> set (write_rets w). 0 \<le> v \<Longrightarrow> bw \<le> len \<Longrightarrow> length tb = unat len
     \<Longrightarrow> unat len - unat bw \<le> sum_list (map nat (write_rets w))
     \<Longrightarrow> \<exists>w'. send_loop w tb len bw = Some (Inr w') \<and> sent w' = sent w @ drop (unat bw) tb
            \<and> arrivals w' = arrivals w \<and> CONNECTED w' = CONNECTED w"
proof (induction w tb len bw rule: send_loop.induct)
  case (1 w tempBuf len bytesWritten)
  show ?case
  proof (cases "bytesWritten \<noteq> len")
    case False
    with "1.prems" show ?thesis by (simp add: send_loop.simps)
  next
    case True
    from "1.prems"(2) have inside: "\<not> len < bytesWritten" by simp
    from True "1.prems"(2) have "bytesWritten < len" by simp
    then have "unat bytesWritten < unat len" by (simp add: word_less_nat_alt)
    with "1.prems"(4) have "write_rets w \<noteq> []" by auto
    then obtain v rs where v: "write_rets w = v # rs" by (cases "write_rets w") auto
    with "1.prems"(1) have v0: "0 \<le> v" and pos': "\<forall>v \<in> set rs. 0 \<le> v" by simp_all
    define k where "k = min (nat v) (unat (len - bytesWritten))"
    define w1 where
      "w1 = w\<lparr>write_rets := rs, sent := sent w @ take k (drop (unat bytesWritten) tempBuf)\<rparr>"
    have sw: "sock_write w (drop (unat bytesWritten) tempBuf) (unat (len - bytesWritten))
        = Some (w1, int k)"
      using sock_write_head [OF v v0] by (simp add: k_def w1_def)
    have kle: "k \<le> unat len - unat bytesWritten"
      using "1.prems"(2) by (simp add: k_def unat_sub_le)
    have u: "unat (bytesWritten + of_nat k) = unat bytesWritten + k"
      and le: "bytesWritten + of_nat k \<le> len"
      using unat_add_small [OF "1.prems"(2) kle] by simp_all
    have pos: "\<forall>v \<in> set (write_rets w1). 0 \<le> v" using pos' by (simp add: w1_def)
    have k2: "k = min (nat v) (unat len - unat bytesWritten)"
      using "1.prems"(2) by (simp add: k_def unat_sub_le)
    have "unat len - (unat bytesWritten + k) \<le> sum_list (map nat rs)"
      using "1.prems"(4) v k2 by (simp add: min_def split: if_splits)
    then have sm: "unat len - unat (bytesWritten + of_nat k)
        \<le> sum_list (map nat (write_rets w1))"
      by (simp only: u) (simp add: w1_def)
    from "1.IH" [OF True inside sw refl, unfolded of_int_of_nat_eq, OF pos le "1.prems"(3) sm]
    obtain w' where
      r: "send_loop w1 tempBuf len (bytesWritten + of_nat k) = Some (Inr w')"
      and s: "sent w' = sent w1 @ drop (unat (bytesWritten + of_nat k)) tempBuf"
      and a: "arrivals w' = arrivals w1" and c: "CONNECTED w' = CONNECTED w1"
      by blast
    have "send_loop w tempBuf len bytesWritten = Some (Inr w')"
      using True inside sw r by (subst send_loop.simps) simp
    moreover have "take k (drop (unat bytesWritten) tempBuf) @ drop (unat bytesWritten + k) tempBuf
        = drop (unat bytesWritten) tempBuf"
      by (metis add.commute append_take_drop_id drop_drop)
    ultimately show ?thesis using s a c u by (simp add: w1_def)
  qed
qed

lemma sock_read_head:
  "arrivals w = Some bs # rest
     \<Longrightarrow> sock_read w n
           = Some (w\<lparr>arrivals := (if length bs \<le> n then rest else Some (drop n bs) # rest)\<rparr>,
                   int (min (length bs) n), take n bs)"
  by (simp add: sock_read_def min_def)

lemma stream_of_Cons: "stream_of (Some bs # rest) = bs @ stream_of rest"
  by (simp add: stream_of_def)

lemma stream_of_nonempty:
  "stream_of as \<noteq> [] \<Longrightarrow> \<forall>a \<in> set as. a \<noteq> None \<Longrightarrow> \<exists>bs rest. as = Some bs # rest"
  by (cases as) (auto simp add: stream_of_def)

lemma recv_loop_completes:
  "\<forall>a \<in> set (arrivals w). a \<noteq> None \<Longrightarrow> br \<le> len \<Longrightarrow> length tb = unat len
     \<Longrightarrow> unat len - unat br \<le> length (stream_of (arrivals w))
     \<Longrightarrow> \<exists>w'. recv_loop w tb len br
                 = Some (Inr (w', take (unat br) tb
                                @ take (unat len - unat br) (stream_of (arrivals w))))
            \<and> stream_of (arrivals w') = drop (unat len - unat br) (stream_of (arrivals w))
            \<and> write_rets w' = write_rets w \<and> sent w' = sent w \<and> CONNECTED w' = CONNECTED w"
proof (induction w tb len br rule: recv_loop.induct)
  case (1 w tempBuf len bytesRead)
  show ?case
  proof (cases "bytesRead \<noteq> len")
    case False
    with "1.prems" show ?thesis by (simp add: recv_loop.simps)
  next
    case True
    from "1.prems"(2) have inside: "\<not> len < bytesRead" by simp
    from True "1.prems"(2) have "bytesRead < len" by simp
    then have "unat bytesRead < unat len" by (simp add: word_less_nat_alt)
    with "1.prems"(4) have "stream_of (arrivals w) \<noteq> []" by auto
    from stream_of_nonempty [OF this "1.prems"(1)] obtain bs0 rest where
      ar: "arrivals w = Some bs0 # rest" by blast
    define n where "n = unat (len - bytesRead)"
    define bs where "bs = take n bs0"
    define k where "k = length bs"
    define b where "b = unat bytesRead"
    define w1 where
      "w1 = w\<lparr>arrivals := (if length bs0 \<le> n then rest else Some (drop n bs0) # rest)\<rparr>"
    have sr: "sock_read w (unat (len - bytesRead)) = Some (w1, int k, bs)"
      using sock_read_head [OF ar, of n] by (simp add: n_def w1_def k_def bs_def)
    have st: "stream_of (arrivals w) = bs @ stream_of (arrivals w1)"
      by (simp add: ar w1_def stream_of_Cons bs_def)
    have al: "\<forall>a \<in> set (arrivals w1). a \<noteq> None"
      using "1.prems"(1) by (simp add: ar w1_def)
    have same: "write_rets w1 = write_rets w" "sent w1 = sent w" "CONNECTED w1 = CONNECTED w"
      by (simp_all add: w1_def)
    have kle: "k \<le> unat len - unat bytesRead"
      using "1.prems"(2) by (simp add: k_def bs_def n_def unat_sub_le)
    have u: "unat (bytesRead + of_nat k) = b + k"
      and le: "bytesRead + of_nat k \<le> len"
      using unat_add_small [OF "1.prems"(2) kle] by (simp_all add: b_def)
    have bl: "b + k \<le> length tempBuf" using kle "1.prems"(2,3)
      by (simp add: b_def word_le_nat_alt)
    have len1: "length (memcpy tempBuf b bs k) = unat len"
      using bl "1.prems"(3) by (simp add: memcpy_def k_def)
    have tk: "take (b + k) (memcpy tempBuf b bs k) = take b tempBuf @ bs"
      using bl by (simp add: memcpy_def k_def)
    have "unat len - (b + k) \<le> length (stream_of (arrivals w1))"
      using "1.prems"(4) by (simp add: st b_def k_def)
    then have en: "unat len - unat (bytesRead + of_nat k) \<le> length (stream_of (arrivals w1))"
      by (simp only: u)
    from "1.IH" [OF True inside sr refl refl, unfolded of_int_of_nat_eq,
        folded k_def b_def, OF al le len1 en]
    obtain w' where
      r: "recv_loop w1 (memcpy tempBuf b bs k) len (bytesRead + of_nat k)
            = Some (Inr (w', take (unat (bytesRead + of_nat k)) (memcpy tempBuf b bs k)
                           @ take (unat len - unat (bytesRead + of_nat k))
                               (stream_of (arrivals w1))))"
      and s: "stream_of (arrivals w')
            = drop (unat len - unat (bytesRead + of_nat k)) (stream_of (arrivals w1))"
      and f: "write_rets w' = write_rets w1" "sent w' = sent w1" "CONNECTED w' = CONNECTED w1"
      by blast
    have run: "recv_loop w tempBuf len bytesRead
        = recv_loop w1 (memcpy tempBuf b bs k) len (bytesRead + of_nat k)"
      using True inside sr by (subst recv_loop.simps) (simp add: k_def b_def)
    have nn: "unat len - b = k + (unat len - (b + k))" using kle by (simp add: b_def)
    show ?thesis
      using r s f same
      by (simp add: run u tk st nn k_def [symmetric] b_def [symmetric])
  qed
qed


lemma connects_block:
  "connects w \<Longrightarrow> \<exists>w0. connect_block w = Inr w0 \<and> write_rets w0 = write_rets w
      \<and> arrivals w0 = arrivals w \<and> sent w0 = sent w"
  by (simp add: connects_def connect_block_def split: if_splits)

lemma not_connects_block: "\<not> connects w \<Longrightarrow> connect_block w = Inl w"
  by (simp add: connects_def connect_block_def split: if_splits)

lemma length_be_bytes: "length (be_bytes v) = 8"
  by (simp add: be_bytes_def)

lemma request_word_abort:
  assumes "connects w" and "write_rets w = r # rs" and "r < 8"
  shows "\<exists>w'. crud_client_operation H w op buf = Some (Inr (w', - 1, buf))
           \<and> write_rets w' = rs \<and> arrivals w' = arrivals w"
proof -
  from connects_block [OF assms(1)] obtain w0 where
    cb: "connect_block w = Inr w0" and f0: "write_rets w0 = write_rets w"
    "arrivals w0 = arrivals w"
    by blast
  have "\<exists>w1 v. sock_write w0 (be_bytes op) 8 = Some (w1, v) \<and> v \<noteq> 8
           \<and> write_rets w1 = rs \<and> arrivals w1 = arrivals w"
  proof (cases "r < 0")
    case True
    with assms(2) f0 show ?thesis by (simp add: sock_write_def)
  next
    case False
    with assms(3) have "int (min (nat r) 8) \<noteq> 8" by simp
    with False assms(2) f0 show ?thesis by (simp add: sock_write_def)
  qed
  then obtain w1 v where
    sw: "sock_write w0 (be_bytes op) 8 = Some (w1, v)" and v: "v \<noteq> 8"
    and f: "write_rets w1 = rs" "arrivals w1 = arrivals w"
    by blast
  then have "send_request H w0 op buf = Some (Inr (Inl w1))"
    by (simp add: send_request_def Let_def)
  with cb f show ?thesis
    by (simp add: crud_client_operation_def)
qed

lemma send_phase:
  assumes wr: "write_rets w = r # rs" and r8: "8 \<le> r" and ok: "\<forall>v \<in> set rs. 0 \<le> v"
    and en: "payload_out H op \<le> sum_list (map nat rs)"
    and lb: "payload_out H op \<le> length buf"
  shows "\<exists>w1. send_request H w op buf = Some (Inr (Inr w1))
           \<and> sent w1 = sent w @ be_bytes op @ take (payload_out H op) buf
           \<and> arrivals w1 = arrivals w"
proof -
  define w0 where "w0 = w\<lparr>write_rets := rs, sent := sent w @ be_bytes op\<rparr>"
  from r8 have r0: "0 \<le> r" and m: "min (nat r) 8 = 8" by simp_all
  have sw: "sock_write w (be_bytes op) 8 = Some (w0, 8)"
    using sock_write_head [OF wr r0, of "be_bytes op" 8] m
    by (simp add: w0_def length_be_bytes)
  define len where "len = fst (snd (snd (extract_crud_response op)))"
  show ?thesis
  proof (cases "fst (snd (extract_crud_response op)) = req_code H CRUD_CREATE
      \<or> fst (snd (extract_crud_response op)) = req_code H CRUD_UPDATE")
    case False
    then have "payload_out H op = 0" by (simp add: payload_out_def)
    moreover from False sw have "send_request H w op buf = Some (Inr (Inr w0))"
      by (simp add: send_request_def Let_def extract_crud_response_def)
    ultimately show ?thesis by (simp add: w0_def)
  next
    case True
    then have po: "payload_out H op = unat len" by (simp add: payload_out_def len_def)
    have a: "\<forall>v \<in> set (write_rets w0). 0 \<le> v" using ok by (simp add: w0_def)
    have b: "(0 :: 32 word) \<le> len" by simp
    have c: "length (take (unat len) buf) = unat len" using lb po by simp
    have d: "unat len - unat (0 :: 32 word) \<le> sum_list (map nat (write_rets w0))"
      using en po by (simp add: w0_def)
    from send_loop_completes [OF a b c d] obtain w1 where
      sl: "send_loop w0 (take (unat len) buf) len 0 = Some (Inr w1)"
      and s: "sent w1 = sent w0 @ take (unat len) buf" and ar: "arrivals w1 = arrivals w0"
      by auto
    from True sw sl have "send_request H w op buf = Some (Inr (Inr w1))"
      by (simp add: send_request_def Let_def extract_crud_response_def len_def)
    with s ar po show ?thesis by (simp add: w0_def)
  qed
qed

lemma response_word_abort:
  assumes "arrivals w = a # rest" and "a = None \<or> (\<exists>bs. a = Some bs \<and> length bs < 8)"
  shows "\<exists>w'. receive_response H w buf = Some (Inr (w', - 1, buf))
           \<and> sent w' = sent w \<and> arrivals w' = rest"
proof -
  from assms obtain w2 v bs where
    sr: "sock_read w 8 = Some (w2, v, bs)" and v: "v \<noteq> 8"
    and f: "sent w2 = sent w" "arrivals w2 = rest"
    by (auto simp add: sock_read_def)
  then have "receive_response H w buf = Some (Inr (w2, - 1, buf))"
    by (simp add: receive_response_def)
  with f show ?thesis by simp
qed

lemma receive_phase:
  assumes ar: "arrivals w = Some bs # rest" and l8: "8 \<le> length bs"
    and ok: "\<forall>a \<in> set rest. a \<noteq> None"
    and n: "n = payload_in H (be_word (take 8 bs))"
    and en: "8 + n \<le> length (stream_of (arrivals w))"
    and ml: "length (malloc H n) = n"
  shows "\<exists>w'. receive_response H w buf
               = Some (Inr (w', be_word (take 8 bs),
                        take n (drop 8 (stream_of (arrivals w))) @ drop n buf))
           \<and> stream_of (arrivals w') = drop (8 + n) (stream_of (arrivals w))
           \<and> sent w' = sent w"
proof -
  define w1 where
    "w1 = w\<lparr>arrivals := (if length bs \<le> 8 then rest else Some (drop 8 bs) # rest)\<rparr>"
  define response where "response = be_word (take 8 bs)"
  define len where "len = fst (snd (snd (extract_crud_response response)))"
  have sr: "sock_read w 8 = Some (w1, 8, take 8 bs)"
    using sock_read_head [OF ar, of 8] l8 by (simp add: w1_def min_def)
  have st: "stream_of (arrivals w) = take 8 bs @ stream_of (arrivals w1)"
    by (simp add: ar w1_def stream_of_Cons)
  have d8: "drop 8 (stream_of (arrivals w)) = stream_of (arrivals w1)"
    using l8 by (simp add: st)
  have al: "\<forall>a \<in> set (arrivals w1). a \<noteq> None" using ok by (simp add: w1_def)
  show ?thesis
  proof (cases "fst (snd (extract_crud_response response)) = req_code H CRUD_READ")
    case False
    then have n0: "n = 0" using n by (simp add: payload_in_def response_def)
    from False sr have "receive_response H w buf
        = Some (Inr (if fst (snd (extract_crud_response response)) = req_code H CRUD_CLOSE
                       then w1\<lparr>CONNECTED := 0\<rparr> else w1, response, buf))"
      by (simp add: receive_response_def Let_def extract_crud_response_def response_def
          del: One_nat_def)
    then show ?thesis using n0 d8 by (auto simp add: response_def w1_def)
  next
    case True
    then have nl: "n = unat len" using n by (simp add: payload_in_def response_def len_def)
    have b: "(0 :: 32 word) \<le> len" by simp
    have c: "length (malloc H (unat len)) = unat len" using ml nl by simp
    have d: "unat len - unat (0 :: 32 word) \<le> length (stream_of (arrivals w1))"
      using en nl l8 by (simp add: st)
    from recv_loop_completes [OF al b c d] obtain w2 where
      rl: "recv_loop w1 (malloc H (unat len)) len 0
             = Some (Inr (w2, take (unat len) (stream_of (arrivals w1))))"
      and s2: "stream_of (arrivals w2) = drop (unat len) (stream_of (arrivals w1))"
      and f2: "sent w2 = sent w1"
      by auto
    have tl: "length (take (unat len) (stream_of (arrivals w1))) = unat len"
      using d by simp
    from True sr rl have "receive_response H w buf
        = Some (Inr (if fst (snd (extract_crud_response response)) = req_code H CRUD_CLOSE
                       then w2\<lparr>CONNECTED := 0\<rparr> else w2, response,
                     memcpy buf 0 (take (unat len) (stream_of (arrivals w1))) (unat len)))"
      by (simp add: receive_response_def Let_def extract_crud_response_def response_def len_def
          del: One_nat_def)
    moreover have "memcpy buf 0 (take (unat len) (stream_of (arrivals w1))) (unat len)
        = take n (drop 8 (stream_of (arrivals w))) @ drop n buf"
      by (simp add: memcpy_def d8 nl)
    moreover have "stream_of (arrivals w2) = drop (8 + n) (stream_of (arrivals w))"
      using s2 d8 by (simp add: nl add.commute [of 8] drop_drop [symmetric] del: drop_drop)
    ultimately show ?thesis using f2 by (auto simp add: response_def w1_def)
  qed
qed


text \<open>
  Claim C8, as the code has it. For every socket and every request:
  \<^item> when the connection is not there and cannot be made, the exchange returns \<open>-1\<close>
    with nothing written or read;
  \<^item> when the \<^verbatim>\<open>write\<close> of the 8-byte request word fails or is short, the exchange returns
    \<open>-1\<close> at once: nothing more is written and nothing is read;
  \<^item> when the request and its payload have gone out and the \<^verbatim>\<open>read\<close> of the 8-byte
    response word fails or is short, the exchange returns \<open>-1\<close> at once: nothing more is
    read, and what has been sent is the request word and its payload, once;
  \<^item> the result bit of \<open>-1\<close> is 1, so the caller sees a failure;
  \<^item> short transfers of a payload do not end the exchange. When the request word goes
    out whole, no \<^verbatim>\<open>write\<close> of the payload fails and the socket accepts the payload in
    pieces of any size, and the response word comes in whole, no \<^verbatim>\<open>read\<close> of the payload
    fails and the stream holds the payload in runs of any size, then the exchange
    returns the response word that arrived; the bytes sent are the request word
    followed by exactly the first \<open>length\<close> bytes of the buffer (for CREATE and UPDATE;
    none otherwise), and the buffer receives exactly the \<open>length\<close> bytes that follow the
    response word on the stream (for READ; none otherwise), the stream being left right
    after them.
  What happens after a \<^verbatim>\<open>write\<close> or \<^verbatim>\<open>read\<close> of the payload that fails is not part of the
  statement.
\<close>

theorem exchange_failure_semantics:
  "(\<not> connects w \<longrightarrow> crud_client_operation H w op buf = Some (Inr (w, - 1, buf)))
   \<and> (connects w \<and> write_rets w = r # rs \<and> r < 8
        \<longrightarrow> (\<exists>w'. crud_client_operation H w op buf = Some (Inr (w', - 1, buf))
                 \<and> write_rets w' = rs \<and> arrivals w' = arrivals w))
   \<and> (send_goes_through H w op buf \<and> arrivals w = a # rest
        \<and> (a = None \<or> (\<exists>bs. a = Some bs \<and> length bs < 8))
        \<longrightarrow> (\<exists>w'. crud_client_operation H w op buf = Some (Inr (w', - 1, buf))
                 \<and> sent w' = sent w @ be_bytes op @ take (payload_out H op) buf
                 \<and> arrivals w' = rest))
   \<and> snd (snd (snd (snd (extract_crud_response (- 1))))) = 1
   \<and> (send_goes_through H w op buf \<and> receive_goes_through H w
        \<and> response = be_word (take 8 (stream_of (arrivals w)))
        \<and> length (malloc H (payload_in H response)) = payload_in H response
        \<longrightarrow> (\<exists>w'. crud_client_operation H w op buf
                   = Some (Inr (w', response,
                            take (payload_in H response) (drop 8 (stream_of (arrivals w)))
                              @ drop (payload_in H response) buf))
                 \<and> sent w' = sent w @ be_bytes op @ take (payload_out H op) buf
                 \<and> stream_of (arrivals w')
                     = drop (8 + payload_in H response) (stream_of (arrivals w))))"
proof -
  have sent_out: "\<exists>w0 w1. connect_block w = Inr w0
      \<and> send_request H w0 op buf = Some (Inr (Inr w1))
      \<and> sent w1 = sent w @ be_bytes op @ take (payload_out H op) buf
      \<and> arrivals w1 = arrivals w"
    if g: "send_goes_through H w op buf"
  proof -
    from g have c: "connects w" and lb: "payload_out H op \<le> length buf"
      by (simp_all add: send_goes_through_def)
    from g obtain v vs where wr: "write_rets w = v # vs" and v8: "8 \<le> v"
      and ok: "\<forall>u \<in> set vs. 0 \<le> u" and en: "payload_out H op \<le> sum_list (map nat vs)"
      by (cases "write_rets w") (simp_all add: send_goes_through_def)
    from connects_block [OF c] obtain w0 where
      cb: "connect_block w = Inr w0" and f0: "write_rets w0 = write_rets w"
      "arrivals w0 = arrivals w" "sent w0 = sent w"
      by blast
    from send_phase [where w = w0 and H = H and op = op and buf = buf, OF _ v8 ok en lb]
      wr f0 cb
    show ?thesis by auto
  qed
  have one: "\<not> connects w \<longrightarrow> crud_client_operation H w op buf = Some (Inr (w, - 1, buf))"
    using not_connects_block [of w] by (simp add: crud_client_operation_def)
  have two: "connects w \<and> write_rets w = r # rs \<and> r < 8
        \<longrightarrow> (\<exists>w'. crud_client_operation H w op buf = Some (Inr (w', - 1, buf))
                 \<and> write_rets w' = rs \<and> arrivals w' = arrivals w)"
    using request_word_abort [of w r rs H op buf] by blast
  have three: "send_goes_through H w op buf \<and> arrivals w = a # rest
        \<and> (a = None \<or> (\<exists>bs. a = Some bs \<and> length bs < 8))
        \<longrightarrow> (\<exists>w'. crud_client_operation H w op buf = Some (Inr (w', - 1, buf))
                 \<and> sent w' = sent w @ be_bytes op @ take (payload_out H op) buf
                 \<and> arrivals w' = rest)"
  proof
    assume h: "send_goes_through H w op buf \<and> arrivals w = a # rest
        \<and> (a = None \<or> (\<exists>bs. a = Some bs \<and> length bs < 8))"
    from sent_out h obtain w0 w1 where
      cb: "connect_block w = Inr w0" and sr: "send_request H w0 op buf = Some (Inr (Inr w1))"
      and s1: "sent w1 = sent w @ be_bytes op @ take (payload_out H op) buf"
      and a1: "arrivals w1 = arrivals w"
      by blast
    from h a1 have "arrivals w1 = a # rest"
      and "a = None \<or> (\<exists>bs. a = Some bs \<and> length bs < 8)"
      by simp_all
    from response_word_abort [OF this, of H buf] obtain w' where
      "receive_response H w1 buf = Some (Inr (w', - 1, buf))"
      "sent w' = sent w1" "arrivals w' = rest"
      by blast
    with cb sr s1
    show "\<exists>w'. crud_client_operation H w op buf = Some (Inr (w', - 1, buf))
                 \<and> sent w' = sent w @ be_bytes op @ take (payload_out H op) buf
                 \<and> arrivals w' = rest"
      by (simp add: crud_client_operation_def)
  qed
  have four: "snd (snd (snd (snd (extract_crud_response (- 1))))) = 1"
    by code_simp
  have five: "send_goes_through H w op buf \<and> receive_goes_through H w
        \<and> response = be_word (take 8 (stream_of (arrivals w)))
        \<and> length (malloc H (payload_in H response)) = payload_in H response
        \<longrightarrow> (\<exists>w'. crud_client_operation H w op buf
                   = Some (Inr (w', response,
                            take (payload_in H response) (drop 8 (stream_of (arrivals w)))
                              @ drop (payload_in H response) buf))
                 \<and> sent w' = sent w @ be_bytes op @ take (payload_out H op) buf
                 \<and> stream_of (arrivals w')
                     = drop (8 + payload_in H response) (stream_of (arrivals w)))"
  proof
    assume h: "send_goes_through H w op buf \<and> receive_goes_through H w
        \<and> response = be_word (take 8 (stream_of (arrivals w)))
        \<and> length (malloc H (payload_in H response)) = payload_in H response"
    from sent_out h obtain w0 w1 where
      cb: "connect_block w = Inr w0" and sr: "send_request H w0 op buf = Some (Inr (Inr w1))"
      and s1: "sent w1 = sent w @ be_bytes op @ take (payload_out H op) buf"
      and a1: "arrivals w1 = arrivals w"
      by blast
    from h have g: "receive_goes_through H w" by simp
    then obtain bs tl where ar: "arrivals w = Some bs # tl" and l8: "8 \<le> length bs"
      and ok: "\<forall>a \<in> set tl. a \<noteq> None"
      and en: "8 + payload_in H (be_word (take 8 bs)) \<le> length (stream_of (arrivals w))"
      by (auto simp add: receive_goes_through_def split: list.splits option.splits)
    from h ar l8 have rs: "response = be_word (take 8 bs)" by (simp add: stream_of_Cons)
    from h have ml: "length (malloc H (payload_in H response)) = payload_in H response"
      by blast
    from receive_phase [where w = w1 and H = H and bs = bs and rest = tl
        and n = "payload_in H response" and buf = buf]
      ar l8 ok en ml rs a1
    obtain w' where
      "receive_response H w1 buf
         = Some (Inr (w', response,
                  take (payload_in H response) (drop 8 (stream_of (arrivals w)))
                    @ drop (payload_in H response) buf))"
      "stream_of (arrivals w') = drop (8 + payload_in H response) (stream_of (arrivals w))"
      "sent w' = sent w1"
      by auto
    with cb sr s1
    show "\<exists>w'. crud_client_operation H w op buf
                   = Some (Inr (w', response,
                            take (payload_in H response) (drop 8 (stream_of (arrivals w)))
                              @ drop (payload_in H response) buf))
                 \<and> sent w' = sent w @ be_bytes op @ take (payload_out H op) buf
                 \<and> stream_of (arrivals w')
                     = drop (8 + payload_in H response) (stream_of (arrivals w))"
      by (simp add: crud_client_operation_def)
  qed
  from one two three four five show ?thesis by (intro conjI)
qed


theorem exchange_failure_semantics_witness:
  "\<not> connects ((socket0 [] [])\<lparr>CONNECTED := 0, connect_ret := - 1\<rparr>)
   \<and> crud_client_operation hdr0 ((socket0 [] [])\<lparr>CONNECTED := 0, connect_ret := - 1\<rparr>)
        (create_crud_request 7 3 16 0 0) [0, 0]
      = Some (Inr ((socket0 [] [])\<lparr>CONNECTED := 0, connect_ret := - 1\<rparr>, - 1, [0, 0]))
   \<and> connects (socket0 [5] [])
   \<and> (\<exists>w'. crud_client_operation hdr0 (socket0 [5] []) (create_crud_request 7 3 16 0 0) [0, 0]
              = Some (Inr (w', - 1, [0, 0]))
            \<and> write_rets w' = [] \<and> arrivals w' = [])
   \<and> send_goes_through hdr0 (socket0 [8] [Some [1, 2, 3]]) (create_crud_request 7 3 16 0 0) [0, 0]
   \<and> (\<exists>w'. crud_client_operation hdr0 (socket0 [8] [Some [1, 2, 3]])
                (create_crud_request 7 3 16 0 0) [0, 0]
              = Some (Inr (w', - 1, [0, 0]))
            \<and> sent w' = be_bytes (create_crud_request 7 3 16 0 0) \<and> arrivals w' = [])
   \<and> send_goes_through hdr0
        (socket0 [8, 2, 0, 2] [Some (be_bytes (create_crud_request 7 2 4 0 0))])
        (create_crud_request 0 2 4 0 0) [1, 2, 3, 4]
   \<and> receive_goes_through hdr0
        (socket0 [8, 2, 0, 2] [Some (be_bytes (create_crud_request 7 2 4 0 0))])
   \<and> (\<exists>w'. crud_client_operation hdr0
                (socket0 [8, 2, 0, 2] [Some (be_bytes (create_crud_request 7 2 4 0 0))])
                (create_crud_request 0 2 4 0 0) [1, 2, 3, 4]
              = Some (Inr (w', create_crud_request 7 2 4 0 0, [1, 2, 3, 4]))
            \<and> sent w' = be_bytes (create_crud_request 0 2 4 0 0) @ [1, 2, 3, 4]
            \<and> stream_of (arrivals w') = [])
   \<and> send_goes_through hdr0
        (socket0 [8] [Some (be_bytes (create_crud_request 7 3 4 0 0) @ [5]), Some [6, 7],
                      Some [8, 9]])
        (create_crud_request 7 3 16 0 0) [0, 0, 0, 0, 0, 0]
   \<and> receive_goes_through hdr0
        (socket0 [8] [Some (be_bytes (create_crud_request 7 3 4 0 0) @ [5]), Some [6, 7],
                      Some [8, 9]])
   \<and> (\<exists>w'. crud_client_operation hdr0
                (socket0 [8] [Some (be_bytes (create_crud_request 7 3 4 0 0) @ [5]), Some [6, 7],
                              Some [8, 9]])
                (create_crud_request 7 3 16 0 0) [0, 0, 0, 0, 0, 0]
              = Some (Inr (w', create_crud_request 7 3 4 0 0, [5, 6, 7, 8, 0, 0]))
            \<and> sent w' = be_bytes (create_crud_request 7 3 16 0 0)
            \<and> stream_of (arrivals w') = [9])"
proof -
  let ?rd = "create_crud_request 7 3 16 0 0"
  let ?cr = "create_crud_request 0 2 4 0 0"
  let ?cs = "create_crud_request 7 2 4 0 0"
  let ?rs = "create_crud_request 7 3 4 0 0"
  let ?W0 = "(socket0 [] [])\<lparr>CONNECTED := 0, connect_ret := - 1\<rparr>"
  let ?W1 = "socket0 [5] []"
  let ?W2 = "socket0 [8] [Some [1, 2, 3]]"
  let ?W3 = "socket0 [8, 2, 0, 2] [Some (be_bytes ?cs)]"
  let ?W4 = "socket0 [8] [Some (be_bytes ?rs @ [5]), Some [6, 7], Some [8, 9]]"
  have a0: "\<not> connects ?W0" by code_simp
  note A = exchange_failure_semantics [where w = ?W0 and H = hdr0 and op = ?rd
      and buf = "[0, 0]", THEN conjunct1, rule_format, OF a0]
  have b0: "connects ?W1" by code_simp
  have b1: "write_rets ?W1 = 5 # [] \<and> (5 :: int) < 8" by (simp add: socket0_def)
  have b2: "arrivals ?W1 = []" by (simp add: socket0_def)
  note B = exchange_failure_semantics [where w = ?W1 and r = 5 and rs = "[]" and H = hdr0
      and op = ?rd and buf = "[0, 0]", THEN conjunct2, THEN conjunct1, rule_format,
      OF conjI [OF b0 b1], unfolded b2]
  have c0: "send_goes_through hdr0 ?W2 ?rd [0, 0]" by code_simp
  have c1: "arrivals ?W2 = Some [1, 2, 3] # []" by (simp add: socket0_def)
  have c2: "Some [1, 2, 3 :: byte] = None
      \<or> (\<exists>bs. Some [1, 2, 3 :: byte] = Some bs \<and> length bs < 8)"
    by simp
  have c3: "sent ?W2 @ be_bytes ?rd @ take (payload_out hdr0 ?rd) [0, 0] = be_bytes ?rd"
    by code_simp
  note C = exchange_failure_semantics [where w = ?W2 and H = hdr0 and op = ?rd
      and buf = "[0, 0]" and a = "Some [1, 2, 3]" and rest = "[]",
      THEN conjunct2, THEN conjunct2, THEN conjunct1, rule_format,
      OF conjI [OF c0 conjI [OF c1 c2]], unfolded c3]
  have d0: "send_goes_through hdr0 ?W3 ?cr [1, 2, 3, 4]" by code_simp
  have d1: "receive_goes_through hdr0 ?W3" by code_simp
  have d2: "?cs = be_word (take 8 (stream_of (arrivals ?W3)))" by code_simp
  have d3: "length (malloc hdr0 (payload_in hdr0 ?cs)) = payload_in hdr0 ?cs" by code_simp
  have d4: "take (payload_in hdr0 ?cs) (drop 8 (stream_of (arrivals ?W3)))
      @ drop (payload_in hdr0 ?cs) [1, 2, 3, 4] = [1, 2, 3, 4]"
    by code_simp
  have d5: "sent ?W3 @ be_bytes ?cr @ take (payload_out hdr0 ?cr) [1, 2, 3, 4]
      = be_bytes ?cr @ [1, 2, 3, 4]"
    by code_simp
  have d6: "drop (8 + payload_in hdr0 ?cs) (stream_of (arrivals ?W3)) = []" by code_simp
  note D = exchange_failure_semantics [where w = ?W3 and H = hdr0 and op = ?cr
      and buf = "[1, 2, 3, 4]" and response = ?cs,
      THEN conjunct2, THEN conjunct2, THEN conjunct2, THEN conjunct2, rule_format,
      OF conjI [OF d0 conjI [OF d1 conjI [OF d2 d3]]], unfolded d4 d5 d6]
  have e0: "send_goes_through hdr0 ?W4 ?rd [0, 0, 0, 0, 0, 0]" by code_simp
  have e1: "receive_goes_through hdr0 ?W4" by code_simp
  have e2: "?rs = be_word (take 8 (stream_of (arrivals ?W4)))" by code_simp
  have e3: "length (malloc hdr0 (payload_in hdr0 ?rs)) = payload_in hdr0 ?rs" by code_simp
  have e4: "take (payload_in hdr0 ?rs) (drop 8 (stream_of (arrivals ?W4)))
      @ drop (payload_in hdr0 ?rs) [0, 0, 0, 0, 0, 0] = [5, 6, 7, 8, 0, 0]"
    by code_simp
  have e5: "sent ?W4 @ be_bytes ?rd @ take (payload_out hdr0 ?rd) [0, 0, 0, 0, 0, 0]
      = be_bytes ?rd"
    by code_simp
  have e6: "drop (8 + payload_in hdr0 ?rs) (stream_of (arrivals ?W4)) = [9]" by code_simp
  note E = exchange_failure_semantics [where w = ?W4 and H = hdr0 and op = ?rd
      and buf = "[0, 0, 0, 0, 0, 0]" and response = ?rs,
      THEN conjunct2, THEN conjunct2, THEN conjunct2, THEN conjunct2, rule_format,
      OF conjI [OF e0 conjI [OF e1 conjI [OF e2 e3]]], unfolded e4 e5 e6]
  from a0 A b0 B c0 C d0 d1 D e0 e1 E show ?thesis by (intro conjI)
qed

text \<open>
  The claim as it is written says that a short send of the payload aborts the
  exchange with an error. A CREATE of four bytes whose payload the socket accepts two
  bytes at a time is sent in full, and the exchange returns the response of the store,
  whose result bit is 0. The socket is not connected at first; the connection block
  makes the connection.
\<close>

theorem short_payload_send_counterexample:
  "(case crud_client_operation hdr0
           ((socket0 [8, 2, 2] [Some (be_bytes (create_crud_request 7 2 4 0 0))])
              \<lparr>CONNECTED := 0\<rparr>)
           (create_crud_request 0 2 4 0 0) [1, 2, 3, 4] of
      Some (Inr (w', response, buf')) \<Rightarrow>
        response = create_crud_request 7 2 4 0 0
          \<and> snd (snd (snd (snd (extract_crud_response response)))) = 0
          \<and> sent w' = be_bytes (create_crud_request 0 2 4 0 0) @ [1, 2, 3, 4]
          \<and> write_rets w' = []
    | _ \<Rightarrow> False)"
  by code_simp

text \<open>
  A \<^verbatim>\<open>write\<close> or \<^verbatim>\<open>read\<close> of the payload that fails at the start of the block is not
  noticed by the loop, and its next round works outside the block: a CREATE whose first
  payload \<^verbatim>\<open>write\<close> fails, and a READ whose first payload \<^verbatim>\<open>read\<close> fails.
\<close>

lemma failed_payload_transfer_leaves_the_block:
  "crud_client_operation hdr0 (socket0 [8, - 1, 4] [])
     (create_crud_request 0 2 4 0 0) [1, 2, 3, 4] = Some (Inl Out_of_block)
   \<and> crud_client_operation hdr0
       (socket0 [8] [Some (be_bytes (create_crud_request 7 3 4 0 0)), None, Some [5, 6, 7, 8]])
       (create_crud_request 7 3 16 0 0) [0, 0, 0, 0] = Some (Inl Out_of_block)"
  by code_simp

subsection \<open>Results of the successful paths\<close>

lemma update_of_updated: "xs[i := g (xs[i := a] ! i)] = xs[i := g a]"
  by (cases "i < length xs") (simp_all add: list_update_beyond not_less)

lemma client_call_eq:
  "x (bus st) rq buf = (n', response, buf') \<Longrightarrow>
   client_call x st tag rq buf
     = (st\<lparr>bus := n', issued := issued st @ [(tag, rq, buf, response)]\<rparr>, response, buf')"
  by (simp add: client_call_def)

lemma extract_into_entry_eq:
  "extract_crud_response response = (oid, req, len, flag, result) \<Longrightarrow>
   extract_into_entry st i response
     = (set_entry st i ((crud_file_table st ! i)\<lparr>object_id := oid, length_f := len\<rparr>), result)"
  by (simp add: extract_into_entry_def)

lemma crud_seek_ok:
  assumes "\<not> bad_handle st fd" and "loc \<le> length_f (crud_file_table st ! nat (sint fd))"
  shows "crud_seek st fd loc
           = (set_entry st (nat (sint fd))
                ((crud_file_table st ! nat (sint fd))\<lparr>position := loc\<rparr>), 0)"
proof -
  from assms(2) have "\<not> loc > length_f (crud_file_table st ! nat (sint fd))" by simp
  with assms(1) show ?thesis
    by (simp add: good_handle crud_seek_def Let_def split del: if_split)
qed

lemma write_case0_ok:
  assumes "x (bus st) (create_crud_request 0 (req_code H CRUD_CREATE) count 0 0)
             (take (unat count) b) = (n1, response, b1)"
    and "extract_crud_response response = (oid, req, len, flag, 0)"
  shows "write_case0 H x st i b count
           = (set_entry
                (st\<lparr>bus := n1,
                    issued := issued st @
                      [(CRUD_CREATE, create_crud_request 0 (req_code H CRUD_CREATE) count 0 0,
                        take (unat count) b, response)]\<rparr>)
                i ((crud_file_table st ! i)\<lparr>object_id := oid, length_f := len, position := count\<rparr>),
              count)"
  using assms
  by (simp add: write_case0_def Let_def client_call_eq extract_into_entry_eq set_entry_def
      update_of_updated)

lemma crud_read_ok:
  assumes g: "\<not> bad_handle st fd"
    and l: "length_f (crud_file_table st ! nat (sint fd)) \<noteq> 0" and c: "1 \<le> sint count"
    and x: "x (bus st)
               (create_crud_request (object_id (crud_file_table st ! nat (sint fd)))
                  (req_code H CRUD_READ) (CRUD_MAX_OBJECT_SIZE H) 0 0)
               (malloc H (unat (CRUD_MAX_OBJECT_SIZE H))) = (n', response, obj)"
    and e: "extract_crud_response response = (oid, req, len, flag, 0)"
    and k: "k = min (unat count) (unat len - unat (position (crud_file_table st ! nat (sint fd))))"
  shows "crud_read H x st fd (Some b) count
           = (set_entry
                (st\<lparr>bus := n',
                    issued := issued st @
                      [(CRUD_READ,
                        create_crud_request (object_id (crud_file_table st ! nat (sint fd)))
                          (req_code H CRUD_READ) (CRUD_MAX_OBJECT_SIZE H) 0 0,
                        malloc H (unat (CRUD_MAX_OBJECT_SIZE H)), response)]\<rparr>)
                (nat (sint fd))
                ((crud_file_table st ! nat (sint fd))
                   \<lparr>object_id := oid, length_f := len,
                    position := position (crud_file_table st ! nat (sint fd)) + of_nat k\<rparr>),
              of_nat k,
              Some (map (\<lambda>j. obj ! (unat (position (crud_file_table st ! nat (sint fd))) + j))
                      [0..<k] @ drop k b))"
proof -
  define pos where "pos = position (crud_file_table st ! nat (sint fd))"
  from c have cc: "nat (sint count) = unat count" by (simp add: nat_sint_pos)
  have kk: "min (unat len - unat pos) (nat (sint count)) = k"
    using cc k by (simp add: pos_def min.commute)
  have "unat count < 2 ^ 32" using unsigned_less [of count] by simp
  then have "k < 2 ^ 32" by (simp add: k)
  then have uk: "unat (of_nat k :: 32 word) = k" by (simp add: unat_of_nat)
  have nc: "\<not> sint count < 1" using c by simp
  from g have g': "\<not> (sint fd < 0 \<or> sint fd > int (length (crud_file_table st)) - 1)"
    and i: "nat (sint fd) < length (crud_file_table st)"
    and o: "open_f (crud_file_table st ! nat (sint fd)) \<noteq> 0"
    by (simp_all add: good_handle)
  show ?thesis
    using g' o i l nc x e
    by (simp add: crud_read_def Let_def client_call_eq extract_into_entry_eq
        read_loop_closed pos_def [symmetric] kk uk memcpy_def set_entry_def
        split del: if_split)
qed




lemma write_case2_ok:
  assumes e: "e = crud_file_table st ! i" and nl: "newLength = count + position e"
    and r: "x (bus st) (create_crud_request (object_id e) (req_code H CRUD_READ) newLength 0 0)
              (malloc H (unat newLength)) = (n1, r1, obj)"
      "extract_crud_response r1 = (oid1, q1, len1, f1, 0)"
    and d: "x n1 (create_crud_request oid1 (req_code H CRUD_DELETE) 0 0 0) [] = (n2, r2, b2)"
      "extract_crud_response r2 = (oid2, q2, len2, f2, 0)"
    and c: "x n2 (create_crud_request 0 (req_code H CRUD_CREATE) newLength 0 0)
              (memcpy obj (unat (position e)) b (unat count)) = (n3, r3, b3)"
      "extract_crud_response r3 = (oid3, q3, len3, f3, 0)"
    and i: "i < length (crud_file_table st)"
  shows "write_case2 H x st i b count
           = (set_entry
                (st\<lparr>bus := n3,
                    issued := issued st @
                      [(CRUD_READ,
                        create_crud_request (object_id e) (req_code H CRUD_READ) newLength 0 0,
                        malloc H (unat newLength), r1),
                       (CRUD_DELETE, create_crud_request oid1 (req_code H CRUD_DELETE) 0 0 0,
                        [], r2),
                       (CRUD_CREATE, create_crud_request 0 (req_code H CRUD_CREATE) newLength 0 0,
                        memcpy obj (unat (position e)) b (unat count), r3)]\<rparr>)
                i (e\<lparr>object_id := oid3, length_f := len3, position := position e + count\<rparr>),
              count)"
  using r d c i
  by (simp add: write_case2_def Let_def e [symmetric] nl [symmetric] client_call_eq
      extract_into_entry_eq set_entry_def)


subsection \<open>Writing, then reading back\<close>




subsection \<open>A write at the end of the file\<close>




subsection \<open>The cursor invariant\<close>

lemma len_field_create_take_bit:
  "fst (snd (snd (extract_crud_response (create_crud_request oid req (take_bit 24 len) 0 0))))
     = take_bit 24 len"
  unfolding extract_crud_response_def create_crud_request_def
  apply (simp only: fst_conv snd_conv)
  apply (intro bit_word_eqI)
  apply (auto simp add: bit_simps dest: bit_imp_le_length)
  done

lemma len_field_create:
  "len < 2 ^ 24 \<Longrightarrow>
   fst (snd (snd (extract_crud_response (create_crud_request oid req len 0 0)))) = len"
  using len_field_create_take_bit [of oid req len] take_bit_self_word [of len 24] by simp


lemma cursor_ok_update:
  assumes "cursor_ok tbl" and "position e' \<le> length_f e'" and "length_f e' < 2 ^ 24"
  shows "cursor_ok (tbl[i := e'])"
proof -
  have "set (tbl[i := e']) \<subseteq> insert e' (set tbl)" by (rule set_update_subset_insert)
  with assms show ?thesis unfolding cursor_ok_def by blast
qed

lemma cursor_ok_nth: "cursor_ok tbl \<Longrightarrow> i < length tbl
    \<Longrightarrow> position (tbl ! i) \<le> length_f (tbl ! i) \<and> length_f (tbl ! i) < 2 ^ 24"
  by (simp add: cursor_ok_def)

lemma cursor_ok_rewind:
  assumes "cursor_ok tbl"
  shows "cursor_ok (tbl[i := (tbl ! i)\<lparr>open_f := v, position := 0\<rparr>])"
proof (cases "i < length tbl")
  case True
  with assms cursor_ok_nth [of tbl i] show ?thesis by (intro cursor_ok_update) simp_all
next
  case False
  with assms show ?thesis by (simp add: list_update_beyond)
qed

lemma cursor_ok_open: "cursor_ok (crud_file_table st)
    \<Longrightarrow> cursor_ok (crud_file_table (fst (crud_open H x st path)))"
  by (auto simp add: crud_open_def split_beta cursor_ok_rewind intro!: cursor_ok_update
      split: option.split)

lemma cursor_ok_close: "cursor_ok (crud_file_table st)
    \<Longrightarrow> cursor_ok (crud_file_table (fst (crud_close st fd)))"
proof (cases "bad_handle st fd")
  case True
  assume "cursor_ok (crud_file_table st)"
  with True show ?thesis by (simp add: crud_close_invalid)
next
  case False
  assume c: "cursor_ok (crud_file_table st)"
  from False have i: "nat (sint fd) < length (crud_file_table st)" by (simp add: good_handle)
  from False have "crud_close st fd
      = (set_entry st (nat (sint fd)) ((crud_file_table st ! nat (sint fd))\<lparr>open_f := 0\<rparr>), 0)"
    by (simp add: good_handle crud_close_def Let_def split del: if_split)
  with c i cursor_ok_nth [of "crud_file_table st" "nat (sint fd)"] show ?thesis
    by (auto intro!: cursor_ok_update)
qed

lemma cursor_ok_seek: "cursor_ok (crud_file_table st)
    \<Longrightarrow> cursor_ok (crud_file_table (fst (crud_seek st fd loc)))"
proof (cases "bad_handle st fd \<or> loc > length_f (crud_file_table st ! nat (sint fd))")
  case True
  assume "cursor_ok (crud_file_table st)"
  with True show ?thesis by (simp add: crud_seek_invalid)
next
  case False
  assume c: "cursor_ok (crud_file_table st)"
  from False have g: "\<not> bad_handle st fd"
    and l: "loc \<le> length_f (crud_file_table st ! nat (sint fd))" by (simp_all add: not_less)
  from g have i: "nat (sint fd) < length (crud_file_table st)" by (simp add: good_handle)
  from c i l cursor_ok_nth [of "crud_file_table st" "nat (sint fd)"] show ?thesis
    by (auto intro!: cursor_ok_update simp add: crud_seek_ok [OF g l])
qed


lemma crud_read_nothing:
  assumes "\<not> bad_handle st fd"
    and "length_f (crud_file_table st ! nat (sint fd)) = 0 \<or> sint count < 1"
  shows "crud_read H x st fd (Some b) count = (st, 0, Some b)"
  using assms unfolding crud_read_def Let_def good_handle
  by (cases "length_f (crud_file_table st ! nat (sint fd)) = 0") (simp_all split del: if_split)

lemma crud_read_failed:
  assumes "\<not> bad_handle st fd"
    and "length_f (crud_file_table st ! nat (sint fd)) \<noteq> 0" and "1 \<le> sint count"
    and "x (bus st)
           (create_crud_request (object_id (crud_file_table st ! nat (sint fd)))
              (req_code H CRUD_READ) (CRUD_MAX_OBJECT_SIZE H) 0 0)
           (malloc H (unat (CRUD_MAX_OBJECT_SIZE H))) = (n', response, obj)"
    and "extract_crud_response response = (oid, req, len, flag, result)" and "result \<noteq> 0"
  shows "fst (snd (crud_read H x st fd (Some b) count)) = - 1"
proof -
  from assms(3) have "\<not> sint count < 1" by simp
  with assms show ?thesis
    by (simp add: crud_read_def Let_def good_handle client_call_eq extract_into_entry_eq
        split del: if_split)
qed

lemma cursor_ok_read:
  assumes c: "cursor_ok (crud_file_table st)" and ok: "step_ok H x st (Read fd buf count)"
  shows "cursor_ok (crud_file_table (fst (crud_read H x st fd buf count)))"
proof (cases "bad_handle st fd \<or> buf = None")
  case True
  with c show ?thesis by (simp add: crud_read_invalid)
next
  case False
  then obtain b where g: "\<not> bad_handle st fd" and b: "buf = Some b" by auto
  define i where "i = nat (sint fd)"
  define e where "e = crud_file_table st ! i"
  from g have il: "i < length (crud_file_table st)" by (simp add: good_handle i_def)
  from c il have pe: "position e \<le> length_f e" and le: "length_f e < 2 ^ 24"
    using cursor_ok_nth [of "crud_file_table st" i] by (simp_all add: e_def)
  show ?thesis
  proof (cases "length_f e = 0 \<or> sint count < 1")
    case True
    with c g show ?thesis by (simp add: b crud_read_nothing e_def i_def)
  next
    case False
    then have l: "length_f (crud_file_table st ! nat (sint fd)) \<noteq> 0" and sc: "1 \<le> sint count"
      by (simp_all add: e_def i_def)
    obtain n' response obj where
      x: "x (bus st)
            (create_crud_request (object_id (crud_file_table st ! nat (sint fd)))
               (req_code H CRUD_READ) (CRUD_MAX_OBJECT_SIZE H) 0 0)
            (malloc H (unat (CRUD_MAX_OBJECT_SIZE H))) = (n', response, obj)"
      by (metis prod_cases3)
    obtain oid req len flag result where
      ex: "extract_crud_response response = (oid, req, len, flag, result)"
      by (metis prod_cases5)
    show ?thesis
    proof (cases "result = 0")
      case False
      from crud_read_failed [where x = x and H = H and b = b, OF g l sc x ex False] ok
      show ?thesis
        by (simp add: b split_beta)
    next
      case True
      define k where "k = min (unat count) (unat len - unat (position e))"
      note r = crud_read_ok [where x = x and H = H and b = b,
          OF g l sc x ex [unfolded True] k_def [unfolded e_def i_def]]
      from ok have "reports_true_length e
          (CRUD_READ,
           create_crud_request (object_id (crud_file_table st ! nat (sint fd)))
             (req_code H CRUD_READ) (CRUD_MAX_OBJECT_SIZE H) 0 0,
           malloc H (unat (CRUD_MAX_OBJECT_SIZE H)), response)"
        by (simp add: b r new_exchanges_def e_def i_def)
      then have len: "len = length_f e" by (simp add: reports_true_length_def ex True)
      have kle: "k \<le> unat (length_f e) - unat (position e)" by (simp add: k_def len)
      from unat_add_small [OF pe kle] have "position e + of_nat k \<le> length_f e" by simp
      with c le show ?thesis
        by (simp add: b r len e_def [symmetric] i_def [symmetric] cursor_ok_update)
    qed
  qed
qed


lemma crud_write_nothing:
  assumes "\<not> bad_handle st fd" and "sint count < 1"
  shows "crud_write H x st fd (Some b) count = (st, 0)"
  using assms unfolding crud_write_def Let_def good_handle
  by (simp split del: if_split)

lemma crud_write_dispatch:
  assumes "\<not> bad_handle st fd" and "1 \<le> sint count"
  shows "crud_write H x st fd (Some b) count
           = (if object_id (crud_file_table st ! nat (sint fd)) = CRUD_NO_OBJECT H
              then write_case0 H x st (nat (sint fd)) b count
              else if count + position (crud_file_table st ! nat (sint fd))
                        \<le> length_f (crud_file_table st ! nat (sint fd))
              then write_case1 H x st (nat (sint fd)) b count
              else write_case2 H x st (nat (sint fd)) b count)"
proof -
  from assms(2) have "\<not> sint count < 1" by simp
  with assms(1) show ?thesis
    unfolding crud_write_def Let_def good_handle by (simp split del: if_split)
qed

lemma write_case0_failed:
  assumes "x (bus st) (create_crud_request 0 (req_code H CRUD_CREATE) count 0 0)
             (take (unat count) b) = (n1, response, b1)"
    and "extract_crud_response response = (oid, req, len, flag, result)" and "result \<noteq> 0"
  shows "snd (write_case0 H x st i b count) = - 1"
  using assms by (simp add: write_case0_def Let_def client_call_eq extract_into_entry_eq)

lemma cursor_ok_write_case0:
  assumes c: "cursor_ok (crud_file_table st)"
    and fits: "unat count < 2 ^ 24"
    and succ: "snd (write_case0 H x st i b count) \<noteq> - 1"
    and truth: "\<forall>ex \<in> set (new_exchanges st (fst (write_case0 H x st i b count))).
                  reports_true_length e ex"
  shows "cursor_ok (crud_file_table (fst (write_case0 H x st i b count)))"
proof -
  obtain n1 response b1 where
    x: "x (bus st) (create_crud_request 0 (req_code H CRUD_CREATE) count 0 0)
          (take (unat count) b) = (n1, response, b1)"
    by (metis prod_cases3)
  obtain oid req len flag result where
    ex: "extract_crud_response response = (oid, req, len, flag, result)"
    by (metis prod_cases5)
  from write_case0_failed [where x = x and H = H, OF x ex] succ have r0: "result = 0" by blast
  note w = write_case0_ok [where x = x and H = H and i = i, OF x ex [unfolded r0]]
  from fits have cl: "count < 2 ^ 24" by (simp add: word_less_nat_alt)
  from truth have "reports_true_length e
      (CRUD_CREATE, create_crud_request 0 (req_code H CRUD_CREATE) count 0 0,
       take (unat count) b, response)"
    by (simp add: w new_exchanges_def)
  then have "len = count"
    by (simp add: reports_true_length_def ex r0 len_field_create [OF cl])
  with c cl show ?thesis by (simp add: w cursor_ok_update)
qed


lemma write_case1_ok:
  assumes e: "e = crud_file_table st ! i" and i: "i < length (crud_file_table st)"
    and r: "x (bus st)
              (create_crud_request (object_id e) (req_code H CRUD_READ) (CRUD_MAX_OBJECT_SIZE H) 0 0)
              (malloc H (unat (CRUD_MAX_OBJECT_SIZE H))) = (n1, r1, obj)"
      "extract_crud_response r1 = (oid1, q1, len1, f1, 0)"
    and u: "x n1 (create_crud_request oid1 (req_code H CRUD_UPDATE) len1 0 0)
              (memcpy obj (unat (position e)) b (unat count)) = (n2, r2, b2)"
      "extract_crud_response r2 = (oid2, q2, len2, f2, 0)"
  shows "write_case1 H x st i b count
           = (set_entry
                (st\<lparr>bus := n2,
                    issued := issued st @
                      [(CRUD_READ,
                        create_crud_request (object_id e) (req_code H CRUD_READ)
                          (CRUD_MAX_OBJECT_SIZE H) 0 0,
                        malloc H (unat (CRUD_MAX_OBJECT_SIZE H)), r1),
                       (CRUD_UPDATE, create_crud_request oid1 (req_code H CRUD_UPDATE) len1 0 0,
                        memcpy obj (unat (position e)) b (unat count), r2)]\<rparr>)
                i (e\<lparr>object_id := oid2, length_f := len2, position := position e + count\<rparr>),
              count)"
  using r u i
  by (simp add: write_case1_def Let_def e [symmetric] client_call_eq extract_into_entry_eq
      set_entry_def)

lemma write_case1_failed:
  assumes e: "e = crud_file_table st ! i" and i: "i < length (crud_file_table st)"
    and r: "x (bus st)
              (create_crud_request (object_id e) (req_code H CRUD_READ) (CRUD_MAX_OBJECT_SIZE H) 0 0)
              (malloc H (unat (CRUD_MAX_OBJECT_SIZE H))) = (n1, r1, obj)"
      "extract_crud_response r1 = (oid1, q1, len1, f1, res1)"
    and u: "x n1 (create_crud_request oid1 (req_code H CRUD_UPDATE) len1 0 0)
              (memcpy obj (unat (position e)) b (unat count)) = (n2, r2, b2)"
      "extract_crud_response r2 = (oid2, q2, len2, f2, res2)"
    and f: "res1 \<noteq> 0 \<or> res2 \<noteq> 0"
  shows "snd (write_case1 H x st i b count) = - 1"
proof (cases "res1 = 0")
  case False
  with r show ?thesis
    by (simp add: write_case1_def Let_def e [symmetric] client_call_eq extract_into_entry_eq)
next
  case True
  with f have "res2 \<noteq> 0" by simp
  with True r u i show ?thesis
    by (simp add: write_case1_def Let_def e [symmetric] client_call_eq extract_into_entry_eq
        set_entry_def)
qed

lemma cursor_ok_write_case1:
  assumes c: "cursor_ok (crud_file_table st)"
    and e: "e = crud_file_table st ! i" and i: "i < length (crud_file_table st)"
    and cond: "count + position e \<le> length_f e"
    and succ: "snd (write_case1 H x st i b count) \<noteq> - 1"
    and truth: "\<forall>ex \<in> set (new_exchanges st (fst (write_case1 H x st i b count))).
                  reports_true_length e ex"
  shows "cursor_ok (crud_file_table (fst (write_case1 H x st i b count)))"
proof -
  from c i have le: "length_f e < 2 ^ 24"
    using cursor_ok_nth [of "crud_file_table st" i] by (simp add: e)
  obtain n1 r1 obj where
    r: "x (bus st)
          (create_crud_request (object_id e) (req_code H CRUD_READ) (CRUD_MAX_OBJECT_SIZE H) 0 0)
          (malloc H (unat (CRUD_MAX_OBJECT_SIZE H))) = (n1, r1, obj)"
    by (metis prod_cases3)
  obtain oid1 q1 len1 f1 res1 where
    e1: "extract_crud_response r1 = (oid1, q1, len1, f1, res1)"
    by (metis prod_cases5)
  obtain n2 r2 b2 where
    u: "x n1 (create_crud_request oid1 (req_code H CRUD_UPDATE) len1 0 0)
          (memcpy obj (unat (position e)) b (unat count)) = (n2, r2, b2)"
    by (metis prod_cases3)
  obtain oid2 q2 len2 f2 res2 where
    e2: "extract_crud_response r2 = (oid2, q2, len2, f2, res2)"
    by (metis prod_cases5)
  from write_case1_failed [where x = x and H = H, OF e i r e1 u e2] succ
  have z: "res1 = 0" "res2 = 0" by blast+
  note w = write_case1_ok [where x = x and H = H, OF e i r e1 [unfolded z] u e2 [unfolded z]]
  from truth have t1: "reports_true_length e
      (CRUD_READ,
       create_crud_request (object_id e) (req_code H CRUD_READ) (CRUD_MAX_OBJECT_SIZE H) 0 0,
       malloc H (unat (CRUD_MAX_OBJECT_SIZE H)), r1)"
    and t2: "reports_true_length e
      (CRUD_UPDATE, create_crud_request oid1 (req_code H CRUD_UPDATE) len1 0 0,
       memcpy obj (unat (position e)) b (unat count), r2)"
    by (simp_all add: w new_exchanges_def)
  from t1 have l1: "len1 = length_f e" by (simp add: reports_true_length_def e1 z)
  from t2 have "len2 = len1"
    by (simp add: reports_true_length_def e2 z len_field_create [OF le [folded l1]])
  with l1 have l2: "len2 = length_f e" by simp
  from cond have "position e + count \<le> length_f e" by (simp add: add.commute)
  with c le show ?thesis by (simp add: w l2 cursor_ok_update)
qed


lemma write_case2_failed:
  assumes e: "e = crud_file_table st ! i" and nl: "newLength = count + position e"
    and r: "x (bus st) (create_crud_request (object_id e) (req_code H CRUD_READ) newLength 0 0)
              (malloc H (unat newLength)) = (n1, r1, obj)"
      "extract_crud_response r1 = (oid1, q1, len1, f1, res1)"
    and d: "x n1 (create_crud_request oid1 (req_code H CRUD_DELETE) 0 0 0) [] = (n2, r2, b2)"
      "extract_crud_response r2 = (oid2, q2, len2, f2, res2)"
    and c: "x n2 (create_crud_request 0 (req_code H CRUD_CREATE) newLength 0 0)
              (memcpy obj (unat (position e)) b (unat count)) = (n3, r3, b3)"
      "extract_crud_response r3 = (oid3, q3, len3, f3, res3)"
    and i: "i < length (crud_file_table st)"
    and f: "res1 \<noteq> 0 \<or> res2 \<noteq> 0 \<or> res3 \<noteq> 0"
  shows "snd (write_case2 H x st i b count) = - 1"
proof (cases "res1 = 0")
  case False
  with r show ?thesis
    by (simp add: write_case2_def Let_def e [symmetric] nl [symmetric] client_call_eq
        extract_into_entry_eq)
next
  case r1: True
  show ?thesis
  proof (cases "res2 = 0")
    case False
    with r1 r d i show ?thesis
      by (simp add: write_case2_def Let_def e [symmetric] nl [symmetric] client_call_eq
          extract_into_entry_eq set_entry_def)
  next
    case True
    with r1 f have "res3 \<noteq> 0" by simp
    with r1 True r d c i show ?thesis
      by (simp add: write_case2_def Let_def e [symmetric] nl [symmetric] client_call_eq
          extract_into_entry_eq set_entry_def)
  qed
qed

lemma cursor_ok_write_case2:
  assumes c: "cursor_ok (crud_file_table st)"
    and e: "e = crud_file_table st ! i" and i: "i < length (crud_file_table st)"
    and fits: "unat (position e) + unat count < 2 ^ 24"
    and succ: "snd (write_case2 H x st i b count) \<noteq> - 1"
    and truth: "\<forall>ex \<in> set (new_exchanges st (fst (write_case2 H x st i b count))).
                  reports_true_length e ex"
  shows "cursor_ok (crud_file_table (fst (write_case2 H x st i b count)))"
proof -
  define newLength where "newLength = count + position e"
  from fits have "unat count + unat (position e) < 2 ^ 32" by simp
  then have "unat newLength = unat count + unat (position e)"
    by (simp add: newLength_def unat_word_ariths)
  with fits have nl24: "newLength < 2 ^ 24" by (simp add: word_less_nat_alt)
  obtain n1 r1 obj where
    r: "x (bus st) (create_crud_request (object_id e) (req_code H CRUD_READ) newLength 0 0)
          (malloc H (unat newLength)) = (n1, r1, obj)"
    by (metis prod_cases3)
  obtain oid1 q1 len1 f1 res1 where
    e1: "extract_crud_response r1 = (oid1, q1, len1, f1, res1)"
    by (metis prod_cases5)
  obtain n2 r2 b2 where
    d: "x n1 (create_crud_request oid1 (req_code H CRUD_DELETE) 0 0 0) [] = (n2, r2, b2)"
    by (metis prod_cases3)
  obtain oid2 q2 len2 f2 res2 where
    e2: "extract_crud_response r2 = (oid2, q2, len2, f2, res2)"
    by (metis prod_cases5)
  obtain n3 r3 b3 where
    cr: "x n2 (create_crud_request 0 (req_code H CRUD_CREATE) newLength 0 0)
           (memcpy obj (unat (position e)) b (unat count)) = (n3, r3, b3)"
    by (metis prod_cases3)
  obtain oid3 q3 len3 f3 res3 where
    e3: "extract_crud_response r3 = (oid3, q3, len3, f3, res3)"
    by (metis prod_cases5)
  from write_case2_failed [where x = x and H = H, OF e newLength_def r e1 d e2 cr e3 i] succ
  have z: "res1 = 0" "res2 = 0" "res3 = 0" by blast+
  note w = write_case2_ok [where x = x and H = H, OF e newLength_def r e1 [unfolded z]
      d e2 [unfolded z] cr e3 [unfolded z] i]
  from truth have "reports_true_length e
      (CRUD_CREATE, create_crud_request 0 (req_code H CRUD_CREATE) newLength 0 0,
       memcpy obj (unat (position e)) b (unat count), r3)"
    by (simp add: w new_exchanges_def)
  then have "len3 = newLength"
    by (simp add: reports_true_length_def e3 z len_field_create [OF nl24])
  then have "position e + count \<le> len3" "len3 < 2 ^ 24"
    using nl24 by (simp_all add: newLength_def add.commute)
  with c show ?thesis by (simp add: w cursor_ok_update)
qed

lemma sint_minus_one: "sint (r :: 32 word) = - 1 \<longleftrightarrow> r = - 1"
  by (metis sint_n1 signed_word_eqI)

lemma cursor_ok_write:
  assumes c: "cursor_ok (crud_file_table st)" and ok: "step_ok H x st (Write fd buf count)"
  shows "cursor_ok (crud_file_table (fst (crud_write H x st fd buf count)))"
proof (cases "bad_handle st fd \<or> buf = None")
  case True
  with c show ?thesis by (simp add: crud_write_invalid)
next
  case False
  then obtain b where g: "\<not> bad_handle st fd" and b: "buf = Some b" by auto
  define i where "i = nat (sint fd)"
  define e where "e = crud_file_table st ! i"
  from g have il: "i < length (crud_file_table st)" by (simp add: good_handle i_def)
  show ?thesis
  proof (cases "sint count < 1")
    case True
    with c g show ?thesis by (simp add: b crud_write_nothing)
  next
    case False
    then have sc: "1 \<le> sint count" by simp
    note dis = crud_write_dispatch [where H = H and x = x and b = b, OF g sc,
        folded i_def, folded e_def]
    from ok sc have fits: "unat (position e) + unat count < 2 ^ 24"
      and succ: "snd (crud_write H x st fd (Some b) count) \<noteq> - 1"
      and truth: "\<forall>ex \<in> set (new_exchanges st (fst (crud_write H x st fd (Some b) count))).
                    reports_true_length e ex"
      by (simp_all add: b split_beta sint_minus_one e_def i_def)
    show ?thesis
    proof (cases "object_id e = CRUD_NO_OBJECT H")
      case True
      from fits have "unat count < 2 ^ 24" by simp
      with c succ truth True show ?thesis
        by (simp add: b dis cursor_ok_write_case0)
    next
      case no: False
      show ?thesis
      proof (cases "count + position e \<le> length_f e")
        case True
        with c succ truth no il show ?thesis
          by (simp add: b dis cursor_ok_write_case1 [OF c e_def il True])
      next
        case False
        with c succ truth no il fits show ?thesis
          by (simp add: b dis cursor_ok_write_case2 [OF c e_def il fits])
      qed
    qed
  qed
qed

lemma cursor_ok_step:
  assumes "cursor_ok (crud_file_table st)" and "step_ok H x st c"
  shows "cursor_ok (crud_file_table (fst (crud_step H x st c)))"
proof (cases c)
  case (Open path)
  with assms show ?thesis by (simp add: split_beta cursor_ok_open)
next
  case (Close fd)
  with assms show ?thesis by (simp add: split_beta cursor_ok_close)
next
  case (Seek fd loc)
  with assms show ?thesis by (simp add: split_beta cursor_ok_seek)
next
  case (Read fd buf count)
  with assms cursor_ok_read [of st H x fd buf count] show ?thesis by (simp add: split_beta)
next
  case (Write fd buf count)
  with assms cursor_ok_write [of st H x fd buf count] show ?thesis by (simp add: split_beta)
qed (use assms in simp_all)

lemma cursor_ok_run:
  "cursor_ok (crud_file_table st) \<Longrightarrow> all_ok H x st cs
     \<Longrightarrow> cursor_ok (crud_file_table (crud_run H x st cs))"
  by (induction cs arbitrary: st) (simp_all add: cursor_ok_step)

text \<open>
  Claim C2, as the code has it. Start from a table in which every entry has position
  0 and length 0 (the empty table) and run any sequence of \<^verbatim>\<open>crud_open\<close>, \<^verbatim>\<open>crud_close\<close>,
  \<^verbatim>\<open>crud_seek\<close>, \<^verbatim>\<open>crud_read\<close> and \<^verbatim>\<open>crud_write\<close> calls in which every call returns success,
  every response received reports the true length of its object, and every write ends
  within the 24 bits of the length field (\<open>all_ok\<close>). Then \<open>0 \<le> position \<le> length\<close> holds
  for every entry of the table at the end, hence after each call of such a sequence.
\<close>

theorem cursor_invariant_of_successful_runs:
  assumes "\<forall>e \<in> set (crud_file_table st). position e = 0 \<and> length_f e = 0"
    and "all_ok H x st cs"
  shows "cursor_inv (crud_file_table (crud_run H x st cs))"
proof -
  from assms(1) have "cursor_ok (crud_file_table st)" by (simp add: cursor_ok_def)
  from this assms(2) have "cursor_ok (crud_file_table (crud_run H x st cs))"
    by (rule cursor_ok_run)
  then show ?thesis by (simp add: cursor_ok_def cursor_inv_def)
qed

theorem cursor_invariant_of_successful_runs_witness:
  "map (\<lambda>e. (position e, length_f e)) (crud_file_table st_run0) = [(0, 0)]
   \<and> all_ok hdr0 scripted st_run0
        [Open ''a'', Write 0 (Some [1, 2, 3]) 3, Seek 0 1, Read 0 (Some [0]) 1]
   \<and> cursor_inv (crud_file_table
        (crud_run hdr0 scripted st_run0
           [Open ''a'', Write 0 (Some [1, 2, 3]) 3, Seek 0 1, Read 0 (Some [0]) 1]))"
proof -
  let ?i = "(CRUD_INIT, create_crud_request 0 0 0 0 0, [], 0 :: 64 word)"
  let ?c = "(CRUD_CREATE, create_crud_request 0 2 3 0 0, [1, 2, 3 :: byte],
             create_crud_request 7 2 3 0 0)"
  let ?r = "(CRUD_READ, create_crud_request 7 3 16 0 0, replicate 16 (0 :: byte),
             create_crud_request 7 3 3 0 0)"
  let ?S1 = "\<lparr>INITIALIZED = 1,
      crud_file_table =
        [\<lparr>filename = ''a'', object_id = 0, position = 0, length_f = 0, open_f = 1\<rparr>],
      bus = [(create_crud_request 7 2 3 0 0, []), (create_crud_request 7 3 3 0 0, [1, 2, 3])],
      issued = [?i]\<rparr>"
  let ?S2 = "\<lparr>INITIALIZED = 1,
      crud_file_table =
        [\<lparr>filename = ''a'', object_id = 7, position = 3, length_f = 3, open_f = 1\<rparr>],
      bus = [(create_crud_request 7 3 3 0 0, [1, 2, 3])],
      issued = [?i, ?c]\<rparr>"
  let ?S3 = "\<lparr>INITIALIZED = 1,
      crud_file_table =
        [\<lparr>filename = ''a'', object_id = 7, position = 1, length_f = 3, open_f = 1\<rparr>],
      bus = [(create_crud_request 7 3 3 0 0, [1, 2, 3])],
      issued = [?i, ?c]\<rparr>"
  let ?S4 = "\<lparr>INITIALIZED = 1,
      crud_file_table =
        [\<lparr>filename = ''a'', object_id = 7, position = 2, length_f = 3, open_f = 1\<rparr>],
      bus = [],
      issued = [?i, ?c, ?r]\<rparr>"
  have s1: "crud_step hdr0 scripted st_run0 (Open ''a'') = (?S1, 0)" by code_simp
  have s2: "crud_step hdr0 scripted ?S1 (Write 0 (Some [1, 2, 3]) 3) = (?S2, 3)" by code_simp
  have s3: "crud_step hdr0 scripted ?S2 (Seek 0 1) = (?S3, 0)" by code_simp
  have s4: "crud_step hdr0 scripted ?S3 (Read 0 (Some [0]) 1) = (?S4, 1)" by code_simp
  have t2: "reports_true_length
      \<lparr>filename = ''a'', object_id = 0, position = 0, length_f = 0, open_f = 1\<rparr> ?c"
    by code_simp
  have t4: "reports_true_length
      \<lparr>filename = ''a'', object_id = 7, position = 1, length_f = 3, open_f = 1\<rparr> ?r"
    by code_simp
  have a: "\<forall>e \<in> set (crud_file_table st_run0). position e = 0 \<and> length_f e = 0" by code_simp
  have b: "all_ok hdr0 scripted st_run0
      [Open ''a'', Write 0 (Some [1, 2, 3]) 3, Seek 0 1, Read 0 (Some [0]) 1]"
    using t2 t4
    by (simp add: s1 s2 s3 s4 new_exchanges_def del: crud_step.simps)
  have a0: "map (\<lambda>e. (position e, length_f e)) (crud_file_table st_run0) = [(0, 0)]"
    by code_simp
  from cursor_invariant_of_successful_runs [OF a b] a0 b show ?thesis by blast
qed

text \<open>
  The claim as it is written promises the invariant after every call that returns
  success. A call that fails after an exchange has already stored the length of the
  failed response in the entry: after a write of five bytes, a READ that the store
  answers with failure and length 0 makes \<^verbatim>\<open>crud_read\<close> return \<open>-1\<close> with the entry at
  position 5 and length 0, and the \<^verbatim>\<open>crud_close\<close> that follows returns success with the
  entry still in that condition.
\<close>

theorem cursor_invariant_counterexample:
  "(case crud_step hdr0 scripted
           (crud_run hdr0 scripted
              (driver0 0 (table0 2) [(0, []), (create_crud_request 7 2 5 0 0, []), (1, [])])
              [Open ''a'', Write 0 (Some [1, 2, 3, 4, 5]) 5, Read 0 (Some [0]) 1])
           (Close 0) of
      (st', r) \<Rightarrow> r = 0 \<and> \<not> cursor_inv (crud_file_table st')
        \<and> map (\<lambda>e. (position e, length_f e)) (crud_file_table st') = [(5, 0), (0, 0)])"
  by code_simp

end
